theory Spec2Isabelle
  imports Main "HOL-Library.Word"
begin

section \<open>The mojom data model\<close>

text \<open>
  The ledger database engine of \<^verbatim>\<open>ledger_database_impl.cc\<close> receives a
  \<^verbatim>\<open>DBTransaction\<close> (a batch of commands with a schema version) and fills in one
  \<^verbatim>\<open>DBCommandResponse\<close>. Fixed-width integers are words; a double is kept as its
  64-bit pattern, since the engine only moves doubles around and never computes with them.
\<close>

type_synonym int8 = "8 word"
type_synonym int32 = "32 word"
type_synonym int64 = "64 word"
type_synonym double = "64 word"

datatype DBValue =
    STRING_VALUE string
  | INT_VALUE int32
  | INT64_VALUE int64
  | DOUBLE_VALUE double
  | BOOL_VALUE bool
  | NULL_VALUE int8

record DBCommandBinding =
  b_index :: int32
  b_value :: DBValue

datatype DBCommandType = INITIALIZE | READ | EXECUTE | RUN | MIGRATE | VACUUM | CLOSE

datatype RecordBindingType = STRING_TYPE | INT_TYPE | INT64_TYPE | DOUBLE_TYPE | BOOL_TYPE

record DBCommand =
  c_type :: DBCommandType
  c_command :: string
  c_bindings :: "DBCommandBinding list"
  c_record_bindings :: "RecordBindingType list"

record DBTransaction =
  t_commands :: "DBCommand list"
  t_version :: int32
  t_compatible_version :: int32

record DBRecord =
  r_fields :: "DBValue list"

datatype DBCommandResult =
    Result_value DBValue
  | Result_records "DBRecord list"

datatype Status =
    RESPONSE_OK
  | INITIALIZATION_ERROR
  | TRANSACTION_ERROR
  | COMMAND_ERROR
  | RESPONSE_ERROR

record DBCommandResponse =
  status :: Status
  result :: "DBCommandResult option"

section \<open>The sql library underneath\<close>

text \<open>
  The engine drives Chromium's \<^verbatim>\<open>sql::Database\<close>, \<^verbatim>\<open>sql::Statement\<close>,
  \<^verbatim>\<open>sql::Transaction\<close> and \<^verbatim>\<open>sql::MetaTable\<close>, which are not part of the
  sources under study. What they do is a parameter of the model (the record \<open>engine\<close>
  below) wherever it depends on SQL text, and is modelled from the specification's
  description where it is bookkeeping: a transaction works on a copy of the stored
  content, commit installs the copy, rollback drops it, and the meta table holds the
  pair (version, compatible version). A statement text is not bookkeeping: it is run
  against the stored content and the working copy together, and may change either.
\<close>

datatype ColumnType = kInteger | kFloat | kText | kBlob | kNull

datatype Column =
    ColInteger int64
  | ColFloat double
  | ColText string
  | ColBlob string
  | ColNull

datatype SqlParam =
    ParamString string
  | ParamInt int32
  | ParamInt64 int64
  | ParamDouble double
  | ParamBool bool
  | ParamNull

text \<open>One outcome of \<^verbatim>\<open>Statement::Step()\<close>: a row, the end of the result, or an error.\<close>

datatype StepResult = StepRow "Column list" | StepDone | StepError

record Statement =
  st_sql :: string
  st_binds :: "(int32 \<times> SqlParam) list"
  st_row :: "Column list"

text \<open>
  The stored content: the reserved meta table (absent, or holding version and
  compatible version) and the caller's own tables, whose shape is left open.
\<close>

record 'u content =
  meta :: "(int32 \<times> int32) option"
  tables :: 'u

text \<open>
  What a statement is run against: the stored content and, while a transaction is open,
  the transaction's working copy.
\<close>

type_synonym 'u database = "'u content \<times> 'u content option"

text \<open>
  The behaviour taken as a parameter. The four flags say whether the one call of that
  kind made during a batch succeeds. \<open>sql_execute\<close> is \<^verbatim>\<open>Database::Execute\<close>
  followed by \<^verbatim>\<open>GetLastChangeCount\<close>; \<open>sql_run\<close> is \<^verbatim>\<open>Statement::Run\<close>
  followed by the same; \<open>sql_step\<close> is the sequence of outcomes of repeated
  \<^verbatim>\<open>Statement::Step\<close> calls. The engine passes any text on, so a statement is
  given the whole database and returns the whole database: a text such as
  \<^verbatim>\<open>COMMIT\<close> can install the working copy and end the transaction in the middle of a
  batch. The change count is \<open>None\<close> when the statement failed, which may still have had
  an effect (a text of several statements fails at the first that does). The \<open>coerce\<close>
  functions are SQLite's conversions when a column is read through an accessor of another
  type (\<open>None\<close>: the index is out of range).
\<close>

record 'u engine =
  open_ok :: bool
  begin_ok :: bool
  commit_ok :: bool
  meta_init_ok :: bool
  sql_execute :: "string \<Rightarrow> 'u database \<Rightarrow> 'u database \<times> int32 option"
  sql_run :: "Statement \<Rightarrow> 'u database \<Rightarrow> 'u database \<times> int32 option"
  sql_step :: "Statement \<Rightarrow> 'u database \<Rightarrow> StepResult list \<times> 'u database"
  coerce_string :: "Column option \<Rightarrow> string"
  coerce_int :: "Column option \<Rightarrow> int32"
  coerce_int64 :: "Column option \<Rightarrow> int64"
  coerce_double :: "Column option \<Rightarrow> double"
  coerce_bool :: "Column option \<Rightarrow> bool"
  coerce_blob :: "Column option \<Rightarrow> string"

subsection \<open>sql::Statement\<close>

definition GetUniqueStatement :: "string \<Rightarrow> Statement" where
  "GetUniqueStatement sql = \<lparr>st_sql = sql, st_binds = [], st_row = []\<rparr>"

definition Bind :: "int32 \<Rightarrow> SqlParam \<Rightarrow> Statement \<Rightarrow> Statement" where
  "Bind i p st = st\<lparr>st_binds := st_binds st @ [(i, p)]\<rparr>"

definition ColumnCount :: "Statement \<Rightarrow> nat" where
  "ColumnCount st = length (st_row st)"

definition column_at :: "Statement \<Rightarrow> nat \<Rightarrow> Column option" where
  "column_at st col = (if col < length (st_row st) then Some (st_row st ! col) else None)"

definition GetColumnType :: "Statement \<Rightarrow> nat \<Rightarrow> ColumnType" where
  "GetColumnType st col =
     (case column_at st col of
        Some (ColInteger v) \<Rightarrow> kInteger
      | Some (ColFloat d) \<Rightarrow> kFloat
      | Some (ColText s) \<Rightarrow> kText
      | Some (ColBlob b) \<Rightarrow> kBlob
      | Some ColNull \<Rightarrow> kNull
      | None \<Rightarrow> kNull)"

definition ColumnString :: "'u engine \<Rightarrow> Statement \<Rightarrow> nat \<Rightarrow> string" where
  "ColumnString e st col =
     (case column_at st col of Some (ColText s) \<Rightarrow> s | other \<Rightarrow> coerce_string e other)"

definition ColumnInt64 :: "'u engine \<Rightarrow> Statement \<Rightarrow> nat \<Rightarrow> int64" where
  "ColumnInt64 e st col =
     (case column_at st col of Some (ColInteger v) \<Rightarrow> v | other \<Rightarrow> coerce_int64 e other)"

definition ColumnInt :: "'u engine \<Rightarrow> Statement \<Rightarrow> nat \<Rightarrow> int32" where
  "ColumnInt e st col =
     (case column_at st col of Some (ColInteger v) \<Rightarrow> ucast v | other \<Rightarrow> coerce_int e other)"

definition ColumnDouble :: "'u engine \<Rightarrow> Statement \<Rightarrow> nat \<Rightarrow> double" where
  "ColumnDouble e st col =
     (case column_at st col of Some (ColFloat d) \<Rightarrow> d | other \<Rightarrow> coerce_double e other)"

definition ColumnBool :: "'u engine \<Rightarrow> Statement \<Rightarrow> nat \<Rightarrow> bool" where
  "ColumnBool e st col = coerce_bool e (column_at st col)"

definition ColumnBlobAsString :: "'u engine \<Rightarrow> Statement \<Rightarrow> nat \<Rightarrow> string" where
  "ColumnBlobAsString e st col =
     (case column_at st col of Some (ColBlob b) \<Rightarrow> b | other \<Rightarrow> coerce_blob e other)"

subsection \<open>sql::MetaTable on a content\<close>

text \<open>
  Modelled from the spec: \<^verbatim>\<open>sql::MetaTable\<close> (\<^verbatim>\<open>DoesTableExist\<close>, \<^verbatim>\<open>Init\<close>,
  \<^verbatim>\<open>GetVersionNumber\<close>, \<^verbatim>\<open>SetVersionNumber\<close>, \<^verbatim>\<open>SetCompatibleVersionNumber\<close>,
  \<^verbatim>\<open>Reset\<close>) is not among the sources. The specification has a reserved meta table
  holding the current and the compatible version as integers: created with the supplied
  versions when it does not exist yet, read back when it does, overwritten by a migration.
  Reading the version of a missing table gives 0, and writing to a missing table changes
  nothing.
\<close>

definition DoesTableExist :: "'u content \<Rightarrow> bool" where
  "DoesTableExist c = (meta c \<noteq> None)"

definition GetVersionNumber :: "'u content \<Rightarrow> int32" where
  "GetVersionNumber c = (case meta c of None \<Rightarrow> 0 | Some (v, cv) \<Rightarrow> v)"

definition SetVersionNumber :: "int32 \<Rightarrow> 'u content \<Rightarrow> 'u content" where
  "SetVersionNumber version c =
     (case meta c of None \<Rightarrow> c | Some (v, cv) \<Rightarrow> c\<lparr>meta := Some (version, cv)\<rparr>)"

definition SetCompatibleVersionNumber :: "int32 \<Rightarrow> 'u content \<Rightarrow> 'u content" where
  "SetCompatibleVersionNumber compatible_version c =
     (case meta c of None \<Rightarrow> c | Some (v, cv) \<Rightarrow> c\<lparr>meta := Some (v, compatible_version)\<rparr>)"

definition create_meta_if_absent :: "int32 \<Rightarrow> int32 \<Rightarrow> 'u content \<Rightarrow> 'u content" where
  "create_meta_if_absent version compatible_version c =
     (case meta c of
        None \<Rightarrow> c\<lparr>meta := Some (version, compatible_version)\<rparr>
      | Some m \<Rightarrow> c)"

section \<open>The engine's state\<close>

text \<open>
  The calls the engine makes on the connection are recorded in \<open>calls\<close>, oldest first.
  The record is an observer only: nothing reads it. It is there so that statements
  about which calls happen, and in what order, can be written down.
\<close>

datatype Event =
    EvOpen bool
  | EvClose
  | EvMetaReset
  | EvBegin bool
  | EvRollback
  | EvCommit bool
  | EvDispatch DBCommandType
  | EvDoesTableExist
  | EvMetaInit bool
  | EvVacuum bool

record 'u LedgerDatabaseImpl =
  db_is_open :: bool
  db_file :: "'u content"
  db_txn :: "'u content option"
  meta_table_bound :: bool
  initialized :: bool
  memory_pressure_listener :: bool
  calls :: "Event list"

definition logged :: "Event list \<Rightarrow> 'u LedgerDatabaseImpl \<Rightarrow> 'u LedgerDatabaseImpl" where
  "logged evs s = s\<lparr>calls := calls s @ evs\<rparr>"

text \<open>The content statements see: the open transaction's copy, else the stored one.\<close>

definition db_current :: "'u LedgerDatabaseImpl \<Rightarrow> 'u content" where
  "db_current s = (case db_txn s of Some c \<Rightarrow> c | None \<Rightarrow> db_file s)"

definition db_store :: "'u content \<Rightarrow> 'u LedgerDatabaseImpl \<Rightarrow> 'u LedgerDatabaseImpl" where
  "db_store c s = (case db_txn s of Some w \<Rightarrow> s\<lparr>db_txn := Some c\<rparr> | None \<Rightarrow> s\<lparr>db_file := c\<rparr>)"

text \<open>The database handed to a statement, and the database a statement hands back.\<close>

definition db_state :: "'u LedgerDatabaseImpl \<Rightarrow> 'u database" where
  "db_state s = (db_file s, db_txn s)"

definition db_set :: "'u database \<Rightarrow> 'u LedgerDatabaseImpl \<Rightarrow> 'u LedgerDatabaseImpl" where
  "db_set d s = s\<lparr>db_file := fst d, db_txn := snd d\<rparr>"

text \<open>
  Modelled from the spec: \<^verbatim>\<open>sql::Database\<close> (\<^verbatim>\<open>Open\<close>, \<^verbatim>\<open>Close\<close>) and
  \<^verbatim>\<open>sql::Transaction\<close> (\<^verbatim>\<open>Begin\<close>, \<^verbatim>\<open>Rollback\<close>, \<^verbatim>\<open>Commit\<close>) are not
  among the sources. The specification has an atomic transaction: \<^verbatim>\<open>Begin\<close> makes a
  working copy of the stored content, a commit installs the copy as the stored content,
  a rollback or a failed commit drops it. When a statement of the batch has already
  ended the transaction there is no copy left, and rollback and commit change no
  content. The functions below are the successful calls (and the failed commit); whether
  a call succeeds is the engine's flag.
\<close>

definition db_Open :: "'u LedgerDatabaseImpl \<Rightarrow> 'u LedgerDatabaseImpl" where
  "db_Open s = logged [EvOpen True] (s\<lparr>db_is_open := True\<rparr>)"

definition db_Close :: "'u LedgerDatabaseImpl \<Rightarrow> 'u LedgerDatabaseImpl" where
  "db_Close s = logged [EvClose] (s\<lparr>db_is_open := False, db_txn := None\<rparr>)"

definition meta_table_Reset :: "'u LedgerDatabaseImpl \<Rightarrow> 'u LedgerDatabaseImpl" where
  "meta_table_Reset s = logged [EvMetaReset] (s\<lparr>meta_table_bound := False\<rparr>)"

definition committer_Begin :: "'u LedgerDatabaseImpl \<Rightarrow> 'u LedgerDatabaseImpl" where
  "committer_Begin s = logged [EvBegin True] (s\<lparr>db_txn := Some (db_file s)\<rparr>)"

definition committer_Rollback :: "'u LedgerDatabaseImpl \<Rightarrow> 'u LedgerDatabaseImpl" where
  "committer_Rollback s = logged [EvRollback] (s\<lparr>db_txn := None\<rparr>)"

definition committer_Commit :: "'u LedgerDatabaseImpl \<Rightarrow> 'u LedgerDatabaseImpl" where
  "committer_Commit s =
     logged [EvCommit True] (s\<lparr>db_file := db_current s, db_txn := None\<rparr>)"

definition committer_Commit_failed :: "'u LedgerDatabaseImpl \<Rightarrow> 'u LedgerDatabaseImpl" where
  "committer_Commit_failed s = logged [EvCommit False] (s\<lparr>db_txn := None\<rparr>)"

definition meta_table_Init ::
  "'u engine \<Rightarrow> int32 \<Rightarrow> int32 \<Rightarrow> 'u LedgerDatabaseImpl \<Rightarrow> bool \<times> 'u LedgerDatabaseImpl" where
  "meta_table_Init e version compatible_version s =
     (if meta_init_ok e
      then (True, logged [EvMetaInit True]
              (db_store (create_meta_if_absent version compatible_version (db_current s))
                 (s\<lparr>meta_table_bound := True\<rparr>)))
      else (False, logged [EvMetaInit False] (s\<lparr>meta_table_bound := True\<rparr>)))"

text \<open>
  The maintenance statement of \<^verbatim>\<open>RunTransaction\<close>, \<^verbatim>\<open>db_.Execute("VACUUM")\<close>,
  goes to the same \<open>sql_execute\<close> as every other statement text.
\<close>

definition db_Execute_VACUUM :: "'u engine \<Rightarrow> 'u LedgerDatabaseImpl \<Rightarrow> bool \<times> 'u LedgerDatabaseImpl" where
  "db_Execute_VACUUM e s =
     (case sql_execute e ''VACUUM'' (db_state s) of
        (d, None) \<Rightarrow> (False, logged [EvVacuum False] (db_set d s))
      | (d, Some n) \<Rightarrow> (True, logged [EvVacuum True] (db_set d s)))"

section \<open>The functions of ledger_database_impl.cc\<close>

subsection \<open>HandleBinding\<close>

text \<open>
  The statement comes in through a pointer: \<open>None\<close> is the null pointer, for which
  nothing is bound. The result is the statement the pointer refers to afterwards.
\<close>

definition HandleBinding :: "Statement option \<Rightarrow> DBCommandBinding \<Rightarrow> Statement option" where
  "HandleBinding statement binding =
     (case statement of
        None \<Rightarrow> None
      | Some st \<Rightarrow>
          (case b_value binding of
             STRING_VALUE v \<Rightarrow> Some (Bind (b_index binding) (ParamString v) st)
           | INT_VALUE v \<Rightarrow> Some (Bind (b_index binding) (ParamInt v) st)
           | INT64_VALUE v \<Rightarrow> Some (Bind (b_index binding) (ParamInt64 v) st)
           | DOUBLE_VALUE v \<Rightarrow> Some (Bind (b_index binding) (ParamDouble v) st)
           | BOOL_VALUE v \<Rightarrow> Some (Bind (b_index binding) (ParamBool v) st)
           | NULL_VALUE v \<Rightarrow> Some (Bind (b_index binding) ParamNull st)))"

text \<open>The loop \<^verbatim>\<open>for (binding : command->bindings) HandleBinding(&statement, binding)\<close>.\<close>

fun bind_all :: "Statement \<Rightarrow> DBCommandBinding list \<Rightarrow> Statement" where
  "bind_all st [] = st"
| "bind_all st (binding # rest) =
     (case HandleBinding (Some st) binding of
        Some st' \<Rightarrow> bind_all st' rest
      | None \<Rightarrow> bind_all st rest)"

subsection \<open>CreateRecord\<close>

fun explicit_value :: "'u engine \<Rightarrow> Statement \<Rightarrow> nat \<Rightarrow> RecordBindingType \<Rightarrow> DBValue" where
  "explicit_value e st column STRING_TYPE = STRING_VALUE (ColumnString e st column)"
| "explicit_value e st column INT_TYPE = INT_VALUE (ColumnInt e st column)"
| "explicit_value e st column INT64_TYPE = INT64_VALUE (ColumnInt64 e st column)"
| "explicit_value e st column DOUBLE_TYPE = DOUBLE_VALUE (ColumnDouble e st column)"
| "explicit_value e st column BOOL_TYPE = BOOL_VALUE (ColumnBool e st column)"

text \<open>The loop over the legacy \<^verbatim>\<open>record_bindings\<close>, with its running column index.\<close>

fun record_explicit ::
  "'u engine \<Rightarrow> Statement \<Rightarrow> nat \<Rightarrow> RecordBindingType list \<Rightarrow> DBRecord \<Rightarrow> DBRecord" where
  "record_explicit e st column [] record = record"
| "record_explicit e st column (binding # rest) record =
     record_explicit e st (Suc column) rest
       (record\<lparr>r_fields := r_fields record @ [explicit_value e st column binding]\<rparr>)"

definition inferred_value :: "'u engine \<Rightarrow> Statement \<Rightarrow> nat \<Rightarrow> DBValue" where
  "inferred_value e st column =
     (case GetColumnType st column of
        kInteger \<Rightarrow> INT64_VALUE (ColumnInt64 e st column)
      | kFloat \<Rightarrow> DOUBLE_VALUE (ColumnDouble e st column)
      | kText \<Rightarrow> STRING_VALUE (ColumnString e st column)
      | kBlob \<Rightarrow> STRING_VALUE (ColumnBlobAsString e st column)
      | kNull \<Rightarrow> NULL_VALUE 0)"

text \<open>The loop \<^verbatim>\<open>for (column = 0; column < statement->ColumnCount(); ++column)\<close>.\<close>

function record_inferred :: "'u engine \<Rightarrow> Statement \<Rightarrow> nat \<Rightarrow> DBRecord \<Rightarrow> DBRecord" where
  "record_inferred e st column record =
     (if column < ColumnCount st
      then record_inferred e st (Suc column)
             (record\<lparr>r_fields := r_fields record @ [inferred_value e st column]\<rparr>)
      else record)"
  by pat_completeness auto
termination
  by (relation "measure (\<lambda>(e, st, column, record). ColumnCount st - column)") auto

declare record_inferred.simps [simp del]

definition CreateRecord ::
  "'u engine \<Rightarrow> Statement option \<Rightarrow> RecordBindingType list \<Rightarrow> DBRecord" where
  "CreateRecord e statement bindings =
     (let record = \<lparr>r_fields = []\<rparr> in
      case statement of
        None \<Rightarrow> record
      | Some st \<Rightarrow>
          if length bindings > 0 then record_explicit e st 0 bindings record
          else record_inferred e st 0 record)"

subsection \<open>Initialize, Execute, Run, Read, Migrate\<close>

text \<open>
  \<^verbatim>\<open>command_response\<close> is a pointer in \<^verbatim>\<open>Initialize\<close> and \<^verbatim>\<open>Read\<close>, which test
  it for null: \<open>None\<close> is the null pointer, and the second component of the result is the
  response object behind the pointer afterwards. \<^verbatim>\<open>Execute\<close> and \<^verbatim>\<open>Run\<close>
  dereference their arguments without a test, so they take the objects themselves.
\<close>

definition Initialize ::
  "'u engine \<Rightarrow> int32 \<Rightarrow> int32 \<Rightarrow> DBCommandResponse option \<Rightarrow> 'u LedgerDatabaseImpl
     \<Rightarrow> Status \<times> DBCommandResponse option \<times> 'u LedgerDatabaseImpl" where
  "Initialize e version compatible_version command_response s =
     (case command_response of
        None \<Rightarrow> (RESPONSE_ERROR, None, s)
      | Some r \<Rightarrow>
          if \<not> initialized s then
            (let table_exists = DoesTableExist (db_current s);
                 s1 = logged [EvDoesTableExist] s
             in case meta_table_Init e version compatible_version s1 of
                  (False, s2) \<Rightarrow> (INITIALIZATION_ERROR, Some r, s2)
                | (True, s2) \<Rightarrow>
                    (let table_version =
                           (if table_exists then GetVersionNumber (db_current s2) else 0);
                         s3 = s2\<lparr>initialized := True, memory_pressure_listener := True\<rparr>
                     in (RESPONSE_OK,
                         Some (r\<lparr>result := Some (Result_value (INT_VALUE table_version))\<rparr>),
                         s3)))
          else
            (let table_version = GetVersionNumber (db_current s)
             in (RESPONSE_OK,
                 Some (r\<lparr>result := Some (Result_value (INT_VALUE table_version))\<rparr>),
                 s)))"

definition Execute ::
  "'u engine \<Rightarrow> DBCommand \<Rightarrow> DBCommandResponse \<Rightarrow> 'u LedgerDatabaseImpl
     \<Rightarrow> Status \<times> DBCommandResponse \<times> 'u LedgerDatabaseImpl" where
  "Execute e command r s =
     (if \<not> initialized s then (INITIALIZATION_ERROR, r, s)
      else case sql_execute e (c_command command) (db_state s) of
             (d, None) \<Rightarrow> (COMMAND_ERROR, r, db_set d s)
           | (d, Some changes) \<Rightarrow>
               (RESPONSE_OK,
                r\<lparr>result := Some (Result_value (INT_VALUE changes))\<rparr>,
                db_set d s))"

definition Run ::
  "'u engine \<Rightarrow> DBCommand \<Rightarrow> DBCommandResponse \<Rightarrow> 'u LedgerDatabaseImpl
     \<Rightarrow> Status \<times> DBCommandResponse \<times> 'u LedgerDatabaseImpl" where
  "Run e command r s =
     (if \<not> initialized s then (INITIALIZATION_ERROR, r, s)
      else
        (let statement = bind_all (GetUniqueStatement (c_command command)) (c_bindings command)
         in case sql_run e statement (db_state s) of
              (d, None) \<Rightarrow> (COMMAND_ERROR, r, db_set d s)
            | (d, Some changes) \<Rightarrow>
                (RESPONSE_OK,
                 r\<lparr>result := Some (Result_value (INT_VALUE changes))\<rparr>,
                 db_set d s)))"

text \<open>
  The loop \<^verbatim>\<open>while (statement.Step()) records.push_back(CreateRecord(...))\<close>:
  \<^verbatim>\<open>Step\<close> is true exactly on a row, so the loop ends at the first outcome that is
  not a row, whether the result is finished or stepping failed.
\<close>

fun read_rows ::
  "'u engine \<Rightarrow> Statement \<Rightarrow> RecordBindingType list \<Rightarrow> StepResult list \<Rightarrow> DBRecord list
     \<Rightarrow> DBRecord list" where
  "read_rows e st bindings [] records = records"
| "read_rows e st bindings (StepRow row # rest) records =
     read_rows e st bindings rest
       (records @ [CreateRecord e (Some (st\<lparr>st_row := row\<rparr>)) bindings])"
| "read_rows e st bindings (StepDone # rest) records = records"
| "read_rows e st bindings (StepError # rest) records = records"

definition Read ::
  "'u engine \<Rightarrow> DBCommand option \<Rightarrow> DBCommandResponse option \<Rightarrow> 'u LedgerDatabaseImpl
     \<Rightarrow> Status \<times> DBCommandResponse option \<times> 'u LedgerDatabaseImpl" where
  "Read e command command_response s =
     (if \<not> initialized s then (INITIALIZATION_ERROR, command_response, s)
      else case (command, command_response) of
             (Some c, Some r) \<Rightarrow>
               (let statement = bind_all (GetUniqueStatement (c_command c)) (c_bindings c);
                    (steps, d) = sql_step e statement (db_state s);
                    records = read_rows e statement (c_record_bindings c) steps []
                in (RESPONSE_OK,
                    Some (r\<lparr>result := Some (Result_records records)\<rparr>),
                    db_set d s))
           | _ \<Rightarrow> (RESPONSE_ERROR, command_response, s))"

definition Migrate ::
  "int32 \<Rightarrow> int32 \<Rightarrow> 'u LedgerDatabaseImpl \<Rightarrow> Status \<times> 'u LedgerDatabaseImpl" where
  "Migrate version compatible_version s =
     (if \<not> initialized s then (INITIALIZATION_ERROR, s)
      else (RESPONSE_OK,
            db_store (SetCompatibleVersionNumber compatible_version
                        (SetVersionNumber version (db_current s))) s))"

subsection \<open>RunTransaction\<close>

text \<open>
  One turn of the loop body's \<^verbatim>\<open>switch\<close>. The response pointer has been tested by
  \<^verbatim>\<open>RunTransaction\<close> before the loop, so the object \<open>r\<close> is at hand; \<open>Initialize\<close> and
  \<open>Read\<close> still get it as a pointer. The \<^verbatim>\<open>CLOSE\<close> case is the release build's: its
  \<^verbatim>\<open>NOTREACHED()\<close> does nothing there.
\<close>

definition written :: "DBCommandResponse option \<Rightarrow> DBCommandResponse \<Rightarrow> DBCommandResponse" where
  "written after r = (case after of Some r' \<Rightarrow> r' | None \<Rightarrow> r)"

definition dispatch ::
  "'u engine \<Rightarrow> DBTransaction \<Rightarrow> DBCommand \<Rightarrow> DBCommandResponse \<Rightarrow> 'u LedgerDatabaseImpl \<Rightarrow> bool
     \<Rightarrow> Status \<times> DBCommandResponse \<times> 'u LedgerDatabaseImpl \<times> bool" where
  "dispatch e transaction command r s0 vacuum_requested =
     (let s = logged [EvDispatch (c_type command)] s0 in
      case c_type command of
        INITIALIZE \<Rightarrow>
          (case Initialize e (t_version transaction) (t_compatible_version transaction) (Some r) s of
             (st, after, s') \<Rightarrow> (st, written after r, s', vacuum_requested))
      | READ \<Rightarrow>
          (case Read e (Some command) (Some r) s of
             (st, after, s') \<Rightarrow> (st, written after r, s', vacuum_requested))
      | EXECUTE \<Rightarrow>
          (case Execute e command r s of (st, r', s') \<Rightarrow> (st, r', s', vacuum_requested))
      | RUN \<Rightarrow>
          (case Run e command r s of (st, r', s') \<Rightarrow> (st, r', s', vacuum_requested))
      | MIGRATE \<Rightarrow>
          (case Migrate (t_version transaction) (t_compatible_version transaction) s of
             (st, s') \<Rightarrow> (st, r, s', vacuum_requested))
      | VACUUM \<Rightarrow> (RESPONSE_OK, r, s, True)
      | CLOSE \<Rightarrow> (COMMAND_ERROR, r, s, vacuum_requested))"

text \<open>
  The loop over the commands. It stops at the first status that is not
  \<^verbatim>\<open>RESPONSE_OK\<close> and hands that status back; \<^verbatim>\<open>RESPONSE_OK\<close> means the loop ran
  to its end.
\<close>

fun run_commands ::
  "'u engine \<Rightarrow> DBTransaction \<Rightarrow> DBCommand list \<Rightarrow> DBCommandResponse \<Rightarrow> 'u LedgerDatabaseImpl \<Rightarrow> bool
     \<Rightarrow> Status \<times> DBCommandResponse \<times> 'u LedgerDatabaseImpl \<times> bool" where
  "run_commands e transaction [] r s vacuum_requested = (RESPONSE_OK, r, s, vacuum_requested)"
| "run_commands e transaction (command # rest) r s vacuum_requested =
     (case dispatch e transaction command r s vacuum_requested of
        (st, r', s', vacuum_requested') \<Rightarrow>
          if st \<noteq> RESPONSE_OK then (st, r', s', vacuum_requested')
          else run_commands e transaction rest r' s' vacuum_requested')"

definition sole_close :: "DBTransaction \<Rightarrow> bool" where
  "sole_close transaction =
     (length (t_commands transaction) = 1 \<and> c_type (t_commands transaction ! 0) = CLOSE)"

definition connection_opened :: "'u LedgerDatabaseImpl \<Rightarrow> 'u LedgerDatabaseImpl" where
  "connection_opened s = (if db_is_open s then s else db_Open s)"

definition RunTransaction ::
  "'u engine \<Rightarrow> DBTransaction \<Rightarrow> DBCommandResponse option \<Rightarrow> 'u LedgerDatabaseImpl
     \<Rightarrow> DBCommandResponse option \<times> 'u LedgerDatabaseImpl" where
  "RunTransaction e transaction command_response s =
     (case command_response of
        None \<Rightarrow> (None, s)
      | Some r \<Rightarrow>
          if \<not> db_is_open s \<and> \<not> open_ok e
          then (Some (r\<lparr>status := INITIALIZATION_ERROR\<rparr>), logged [EvOpen False] s)
          else
            (let s1 = connection_opened s in
             if sole_close transaction
             then (Some (r\<lparr>status := RESPONSE_OK\<rparr>),
                   (meta_table_Reset (db_Close s1))\<lparr>initialized := False\<rparr>)
             else if \<not> begin_ok e
             then (Some (r\<lparr>status := TRANSACTION_ERROR\<rparr>), logged [EvBegin False] s1)
             else
               (case run_commands e transaction (t_commands transaction) r
                       (committer_Begin s1) False of
                  (st, r', s2, vacuum_requested) \<Rightarrow>
                    if st \<noteq> RESPONSE_OK
                    then (Some (r'\<lparr>status := st\<rparr>), committer_Rollback s2)
                    else if \<not> commit_ok e
                    then (Some (r'\<lparr>status := TRANSACTION_ERROR\<rparr>), committer_Commit_failed s2)
                    else
                      (let s3 = committer_Commit s2 in
                       if vacuum_requested
                       then (Some r', snd (db_Execute_VACUUM e s3))
                       else (Some r', s3)))))"

section \<open>Vocabulary for the properties\<close>

text \<open>The calls made between two states of the engine.\<close>

definition new_calls :: "'u LedgerDatabaseImpl \<Rightarrow> 'u LedgerDatabaseImpl \<Rightarrow> Event list" where
  "new_calls s s' = drop (length (calls s)) (calls s')"

text \<open>The command types handed to the loop's \<^verbatim>\<open>switch\<close>, in order.\<close>

fun dispatched :: "Event list \<Rightarrow> DBCommandType list" where
  "dispatched [] = []"
| "dispatched (EvDispatch t # evs) = t # dispatched evs"
| "dispatched (ev # evs) = dispatched evs"

text \<open>The calls that the handlers of the loop make.\<close>

fun loop_event :: "Event \<Rightarrow> bool" where
  "loop_event (EvDispatch t) = True"
| "loop_event EvDoesTableExist = True"
| "loop_event (EvMetaInit ok) = True"
| "loop_event ev = False"

text \<open>The calls that can come before a successful commit.\<close>

definition before_commit :: "Event \<Rightarrow> bool" where
  "before_commit ev = (loop_event ev \<or> ev = EvOpen True \<or> ev = EvBegin True)"

fun is_vacuum :: "Event \<Rightarrow> bool" where
  "is_vacuum (EvVacuum ok) = True"
| "is_vacuum ev = False"

text \<open>
  An engine none of whose statements ends an open transaction or touches the stored
  content behind it: whatever a statement does, it does to the working copy.
\<close>

definition keeps_transaction :: "'u engine \<Rightarrow> bool" where
  "keeps_transaction e =
     (\<forall>f w.
        (\<forall>sql. fst (fst (sql_execute e sql (f, Some w))) = f
               \<and> snd (fst (sql_execute e sql (f, Some w))) \<noteq> None)
      \<and> (\<forall>st. fst (fst (sql_run e st (f, Some w))) = f
               \<and> snd (fst (sql_run e st (f, Some w))) \<noteq> None)
      \<and> (\<forall>st. fst (snd (sql_step e st (f, Some w))) = f
               \<and> snd (snd (sql_step e st (f, Some w))) \<noteq> None))"

text \<open>
  The specification's description of a read, to compare \<open>Read\<close> and \<open>CreateRecord\<close>
  with: the rows are those before stepping first stops, and in inferred mode a column
  becomes the value of its runtime type.
\<close>

fun spec_rows_until_stop :: "StepResult list \<Rightarrow> Column list list" where
  "spec_rows_until_stop (StepRow row # rest) = row # spec_rows_until_stop rest"
| "spec_rows_until_stop steps = []"

fun spec_inferred_value :: "Column \<Rightarrow> DBValue" where
  "spec_inferred_value (ColInteger v) = INT64_VALUE v"
| "spec_inferred_value (ColFloat d) = DOUBLE_VALUE d"
| "spec_inferred_value (ColText s) = STRING_VALUE s"
| "spec_inferred_value (ColBlob b) = STRING_VALUE b"
| "spec_inferred_value ColNull = NULL_VALUE 0"

subsection \<open>Sample inputs\<close>

text \<open>
  A small engine whose tables are a row count: \<^verbatim>\<open>INSERT\<close> adds a row to the
  working copy (to the stored content when no transaction is open), \<^verbatim>\<open>SELECT\<close>
  yields two rows and then fails, any other text is an error without effect.
\<close>

definition insert_row :: "nat database \<Rightarrow> nat database" where
  "insert_row d =
     (case snd d of
        Some w \<Rightarrow> (fst d, Some (w\<lparr>tables := Suc (tables w)\<rparr>))
      | None \<Rightarrow> ((fst d)\<lparr>tables := Suc (tables (fst d))\<rparr>, None))"

definition sample_engine :: "nat engine" where
  "sample_engine =
     \<lparr>open_ok = True, begin_ok = True, commit_ok = True, meta_init_ok = True,
      sql_execute = (\<lambda>sql d.
         if sql = ''VACUUM'' then (d, Some 0)
         else if sql = ''INSERT'' then (insert_row d, Some 1)
         else (d, None)),
      sql_run = (\<lambda>st d.
         if st_sql st = ''INSERT'' then (insert_row d, Some 1) else (d, None)),
      sql_step = (\<lambda>st d.
         (if st_sql st = ''SELECT''
          then [StepRow [ColInteger 1, ColText ''a''], StepRow [ColNull, ColBlob ''b''],
                StepError, StepRow [ColFloat 0]]
          else [], d)),
      coerce_string = (\<lambda>col. []), coerce_int = (\<lambda>col. 0), coerce_int64 = (\<lambda>col. 0),
      coerce_double = (\<lambda>col. 0), coerce_bool = (\<lambda>col. False),
      coerce_blob = (\<lambda>col. [])\<rparr>"

text \<open>The same engine when \<^verbatim>\<open>Database::Execute\<close> fails on every text.\<close>

definition no_execute_engine :: "nat engine" where
  "no_execute_engine = sample_engine\<lparr>sql_execute := (\<lambda>sql d. (d, None))\<rparr>"


definition new_file :: "nat LedgerDatabaseImpl" where
  "new_file =
     \<lparr>db_is_open = False, db_file = \<lparr>meta = None, tables = 0\<rparr>, db_txn = None,
      meta_table_bound = False, initialized = False, memory_pressure_listener = False,
      calls = []\<rparr>"

definition ready_db :: "nat LedgerDatabaseImpl" where
  "ready_db =
     \<lparr>db_is_open = True, db_file = \<lparr>meta = Some (5, 3), tables = 2\<rparr>, db_txn = None,
      meta_table_bound = True, initialized = True, memory_pressure_listener = True,
      calls = []\<rparr>"

definition fresh_response :: DBCommandResponse where
  "fresh_response = \<lparr>status = RESPONSE_OK, result = None\<rparr>"

definition cmd :: "DBCommandType \<Rightarrow> string \<Rightarrow> DBCommand" where
  "cmd t sql = \<lparr>c_type = t, c_command = sql, c_bindings = [], c_record_bindings = []\<rparr>"

definition batch :: "DBCommand list \<Rightarrow> DBTransaction" where
  "batch cmds = \<lparr>t_commands = cmds, t_version = 1, t_compatible_version = 1\<rparr>"

section \<open>Facts about the loop\<close>

lemmas command_defs =
  Initialize_def Execute_def Run_def Read_def Migrate_def meta_table_Init_def
  db_store_def db_current_def db_state_def db_set_def logged_def written_def

lemma dispatched_append: "dispatched (xs @ ys) = dispatched xs @ dispatched ys"
  by (induction xs rule: dispatched.induct) auto

lemma keeps_transaction_execute:
  assumes "keeps_transaction e" and "sql_execute e sql (f, Some w) = (d, x)"
  shows "fst d = f \<and> snd d \<noteq> None"
proof -
  from assms(1) have "fst (fst (sql_execute e sql (f, Some w))) = f
      \<and> snd (fst (sql_execute e sql (f, Some w))) \<noteq> None"
    unfolding keeps_transaction_def by blast
  with assms(2) show ?thesis by simp
qed

lemma keeps_transaction_run:
  assumes "keeps_transaction e" and "sql_run e st (f, Some w) = (d, x)"
  shows "fst d = f \<and> snd d \<noteq> None"
proof -
  from assms(1) have "fst (fst (sql_run e st (f, Some w))) = f
      \<and> snd (fst (sql_run e st (f, Some w))) \<noteq> None"
    unfolding keeps_transaction_def by blast
  with assms(2) show ?thesis by simp
qed

lemma keeps_transaction_step:
  assumes "keeps_transaction e" and "sql_step e st (f, Some w) = (steps, d)"
  shows "fst d = f \<and> snd d \<noteq> None"
proof -
  from assms(1) have "fst (snd (sql_step e st (f, Some w))) = f
      \<and> snd (snd (sql_step e st (f, Some w))) \<noteq> None"
    unfolding keeps_transaction_def by blast
  with assms(2) show ?thesis by simp
qed

text \<open>No handler opens or closes the connection, and none clears \<open>initialized\<close>.\<close>

lemma dispatch_open:
  assumes "dispatch e tx c r s v = (st, r', s', v')"
  shows "db_is_open s' = db_is_open s \<and> (initialized s \<longrightarrow> initialized s')"
  using assms
  by (cases "c_type c")
     (auto simp: dispatch_def command_defs Let_def
           split: if_splits option.splits prod.splits bool.splits)

text \<open>
  With an engine that keeps the transaction, a handler run inside a transaction leaves
  the stored content alone and the transaction open.
\<close>

lemma dispatch_db:
  assumes "dispatch e tx c r s v = (st, r', s', v')" and "keeps_transaction e"
    and "db_txn s \<noteq> None"
  shows "db_file s' = db_file s \<and> db_txn s' \<noteq> None"
proof -
  from assms(3) obtain w where w: "db_txn s = Some w" by auto
  note keeps = keeps_transaction_execute [OF assms(2)] keeps_transaction_run [OF assms(2)]
    keeps_transaction_step [OF assms(2)]
  show ?thesis
  proof (cases "c_type c")
    case EXECUTE
    obtain d x where q: "sql_execute e (c_command c) (db_file s, Some w) = (d, x)"
      by (cases "sql_execute e (c_command c) (db_file s, Some w)") auto
    from keeps(1) [OF q] q assms(1) w EXECUTE show ?thesis
      by (auto simp: dispatch_def command_defs Let_def split: if_splits option.splits)
  next
    case RUN
    let ?st = "bind_all (GetUniqueStatement (c_command c)) (c_bindings c)"
    obtain d x where q: "sql_run e ?st (db_file s, Some w) = (d, x)"
      by (cases "sql_run e ?st (db_file s, Some w)") auto
    from keeps(2) [OF q] q assms(1) w RUN show ?thesis
      by (auto simp: dispatch_def command_defs Let_def split: if_splits option.splits)
  next
    case READ
    let ?st = "bind_all (GetUniqueStatement (c_command c)) (c_bindings c)"
    obtain steps d where q: "sql_step e ?st (db_file s, Some w) = (steps, d)"
      by (cases "sql_step e ?st (db_file s, Some w)") auto
    from keeps(3) [OF q] q assms(1) w READ show ?thesis
      by (auto simp: dispatch_def command_defs Let_def split: if_splits option.splits)
  qed (use assms(1) w in \<open>auto simp: dispatch_def command_defs Let_def
         split: if_splits option.splits prod.splits bool.splits\<close>)
qed

text \<open>
  A command that succeeds on a connection that is still uninitialized afterwards can only
  be a \<^verbatim>\<open>VACUUM\<close> command, which does nothing but set the flag.
\<close>

lemma dispatch_uninitialized:
  assumes "dispatch e tx c r s v = (RESPONSE_OK, r', s', v')" and "\<not> initialized s'"
  shows "c_type c = VACUUM \<and> db_file s' = db_file s \<and> db_txn s' = db_txn s"
  using assms
  by (cases "c_type c")
     (auto simp: dispatch_def command_defs Let_def
           split: if_splits option.splits prod.splits bool.splits)

lemma dispatch_status:
  assumes "dispatch e tx c r s v = (st, r', s', v')"
  shows "status r' = status r \<and> st \<noteq> RESPONSE_ERROR"
  using assms
  by (cases "c_type c")
     (auto simp: dispatch_def command_defs Let_def
           split: if_splits option.splits prod.splits bool.splits)

lemma dispatch_calls:
  assumes "dispatch e tx c r s v = (st, r', s', v')"
  shows "\<exists>evs. calls s' = calls s @ evs \<and> list_all loop_event evs \<and> dispatched evs = [c_type c]"
  using assms
  by (cases "c_type c")
     (auto simp: dispatch_def command_defs Let_def
           split: if_splits option.splits prod.splits bool.splits)

lemma run_commands_open:
  assumes "run_commands e tx cmds r s v = (st, r', s', v')"
  shows "db_is_open s' = db_is_open s \<and> (initialized s \<longrightarrow> initialized s')"
  using assms
proof (induction cmds arbitrary: r s v)
  case Nil
  then show ?case by simp
next
  case (Cons c cmds)
  obtain st1 r1 s1 v1 where d: "dispatch e tx c r s v = (st1, r1, s1, v1)"
    by (cases "dispatch e tx c r s v") auto
  note inv = dispatch_open [OF d]
  show ?case
  proof (cases "st1 = RESPONSE_OK")
    case True
    with Cons.prems d have "run_commands e tx cmds r1 s1 v1 = (st, r', s', v')" by simp
    from Cons.IH [OF this] inv show ?thesis by simp
  next
    case False
    with Cons.prems d inv show ?thesis by auto
  qed
qed

lemma run_commands_db:
  assumes "run_commands e tx cmds r s v = (st, r', s', v')" and "keeps_transaction e"
    and "db_txn s \<noteq> None"
  shows "db_file s' = db_file s \<and> db_txn s' \<noteq> None"
  using assms(1,3)
proof (induction cmds arbitrary: r s v)
  case Nil
  then show ?case by simp
next
  case (Cons c cmds)
  obtain st1 r1 s1 v1 where d: "dispatch e tx c r s v = (st1, r1, s1, v1)"
    by (cases "dispatch e tx c r s v") auto
  from dispatch_db [OF d assms(2) Cons.prems(2)]
  have inv: "db_file s1 = db_file s" "db_txn s1 \<noteq> None"
    by simp_all
  show ?case
  proof (cases "st1 = RESPONSE_OK")
    case True
    with Cons.prems(1) d have "run_commands e tx cmds r1 s1 v1 = (st, r', s', v')" by simp
    from Cons.IH [OF this inv(2)] inv show ?thesis by simp
  next
    case False
    with Cons.prems(1) d inv show ?thesis by auto
  qed
qed

lemma run_commands_uninitialized:
  assumes "run_commands e tx cmds r s v = (RESPONSE_OK, r', s', v')" and "\<not> initialized s'"
  shows "db_file s' = db_file s \<and> db_txn s' = db_txn s \<and> c_type ` set cmds \<subseteq> {VACUUM}"
  using assms
proof (induction cmds arbitrary: r s v)
  case Nil
  then show ?case by simp
next
  case (Cons c cmds)
  obtain st1 r1 s1 v1 where d: "dispatch e tx c r s v = (st1, r1, s1, v1)"
    by (cases "dispatch e tx c r s v") auto
  with Cons.prems(1) have ok: "st1 = RESPONSE_OK"
    by (auto split: if_splits)
  with Cons.prems(1) d have rc: "run_commands e tx cmds r1 s1 v1 = (RESPONSE_OK, r', s', v')"
    by simp
  from run_commands_open [OF rc] Cons.prems(2) have "\<not> initialized s1" by blast
  from dispatch_uninitialized [OF d [unfolded ok] this] Cons.IH [OF rc Cons.prems(2)]
  show ?case by simp
qed

lemma run_commands_status:
  assumes "run_commands e tx cmds r s v = (st, r', s', v')"
  shows "status r' = status r \<and> st \<noteq> RESPONSE_ERROR"
  using assms
proof (induction cmds arbitrary: r s v)
  case Nil
  then show ?case by auto
next
  case (Cons c cmds)
  obtain st1 r1 s1 v1 where d: "dispatch e tx c r s v = (st1, r1, s1, v1)"
    by (cases "dispatch e tx c r s v") auto
  note ds = dispatch_status [OF d]
  show ?case
  proof (cases "st1 = RESPONSE_OK")
    case True
    with Cons.prems d have "run_commands e tx cmds r1 s1 v1 = (st, r', s', v')" by simp
    from Cons.IH [OF this] ds show ?thesis by simp
  next
    case False
    with Cons.prems d ds show ?thesis by auto
  qed
qed

lemma run_commands_calls:
  assumes "run_commands e tx cmds r s v = (st, r', s', v')"
  shows "\<exists>evs. calls s' = calls s @ evs \<and> list_all loop_event evs
           \<and> (st = RESPONSE_OK \<longrightarrow> dispatched evs = map c_type cmds)"
  using assms
proof (induction cmds arbitrary: r s v)
  case Nil
  then show ?case by auto
next
  case (Cons c cmds)
  obtain st1 r1 s1 v1 where d: "dispatch e tx c r s v = (st1, r1, s1, v1)"
    by (cases "dispatch e tx c r s v") auto
  from dispatch_calls [OF d] obtain evs1 where
    e1: "calls s1 = calls s @ evs1" "list_all loop_event evs1" "dispatched evs1 = [c_type c]"
    by blast
  show ?case
  proof (cases "st1 = RESPONSE_OK")
    case True
    with Cons.prems d have "run_commands e tx cmds r1 s1 v1 = (st, r', s', v')" by simp
    from Cons.IH [OF this] obtain evs2 where
      e2: "calls s' = calls s1 @ evs2" "list_all loop_event evs2"
          "st = RESPONSE_OK \<longrightarrow> dispatched evs2 = map c_type cmds"
      by blast
    from e1 e2 have "calls s' = calls s @ (evs1 @ evs2) \<and> list_all loop_event (evs1 @ evs2)
        \<and> (st = RESPONSE_OK \<longrightarrow> dispatched (evs1 @ evs2) = map c_type (c # cmds))"
      by (simp add: dispatched_append)
    then show ?thesis by blast
  next
    case False
    with Cons.prems d have "st = st1" "s' = s1" by auto
    with False e1 show ?thesis by auto
  qed
qed

lemma run_commands_fail_at:
  assumes "run_commands e tx pre r s v = (RESPONSE_OK, r1, s1, v1)"
    "dispatch e tx c r1 s1 v1 = (st, r2, s2, v2)" "st \<noteq> RESPONSE_OK"
  shows "run_commands e tx (pre @ c # rest) r s v = (st, r2, s2, v2)"
  using assms
proof (induction pre arbitrary: r s v)
  case Nil
  then show ?case by simp
next
  case (Cons a pre)
  obtain st1 ra sa va where d: "dispatch e tx a r s v = (st1, ra, sa, va)"
    by (cases "dispatch e tx a r s v") auto
  with Cons.prems(1) have ok: "st1 = RESPONSE_OK"
    by (auto split: if_splits)
  with Cons.prems(1) d have "run_commands e tx pre ra sa va = (RESPONSE_OK, r1, s1, v1)" by simp
  from Cons.IH [OF this Cons.prems(2,3)] d ok show ?case by simp
qed

lemma run_commands_vacuum_flag:
  assumes "run_commands e tx cmds r s v = (st, r', s', v')"
  shows "v' \<longrightarrow> v \<or> VACUUM \<in> c_type ` set cmds"
  using assms
proof (induction cmds arbitrary: r s v)
  case Nil
  then show ?case by auto
next
  case (Cons c cmds)
  obtain st1 r1 s1 v1 where d: "dispatch e tx c r s v = (st1, r1, s1, v1)"
    by (cases "dispatch e tx c r s v") auto
  have dv: "v1 \<longrightarrow> v \<or> c_type c = VACUUM"
    using d by (cases "c_type c") (auto simp: dispatch_def Let_def split: prod.splits)
  show ?case
  proof (cases "st1 = RESPONSE_OK")
    case True
    with Cons.prems d have "run_commands e tx cmds r1 s1 v1 = (st, r', s', v')" by simp
    from Cons.IH [OF this] dv show ?thesis by auto
  next
    case False
    with Cons.prems d dv show ?thesis by auto
  qed
qed


lemma connection_opened_facts:
  "db_file (connection_opened s) = db_file s"
  "db_txn (connection_opened s) = db_txn s"
  "initialized (connection_opened s) = initialized s"
  "calls (connection_opened s) = calls s @ (if db_is_open s then [] else [EvOpen True])"
  "db_is_open (connection_opened s) = True"
  by (simp_all add: connection_opened_def db_Open_def logged_def)

lemma committer_Begin_facts:
  "db_file (committer_Begin s) = db_file s"
  "db_txn (committer_Begin s) = Some (db_file s)"
  "db_is_open (committer_Begin s) = db_is_open s"
  "initialized (committer_Begin s) = initialized s"
  "calls (committer_Begin s) = calls s @ [EvBegin True]"
  by (simp_all add: committer_Begin_def logged_def)

lemma RunTransaction_loop:
  assumes "db_is_open s \<or> open_ok e" "\<not> sole_close tx" "begin_ok e"
    "run_commands e tx (t_commands tx) r (committer_Begin (connection_opened s)) False
       = (st, r', s2, vac)"
  shows "RunTransaction e tx (Some r) s =
     (if st \<noteq> RESPONSE_OK then (Some (r'\<lparr>status := st\<rparr>), committer_Rollback s2)
      else if \<not> commit_ok e
      then (Some (r'\<lparr>status := TRANSACTION_ERROR\<rparr>), committer_Commit_failed s2)
      else if vac then (Some r', snd (db_Execute_VACUUM e (committer_Commit s2)))
      else (Some r', committer_Commit s2))"
  using assms by (auto simp: RunTransaction_def Let_def)

lemma RunTransaction_status:
  assumes "RunTransaction e tx (Some r) s = (ro, s')"
  shows "\<exists>r'. ro = Some r' \<and>
     status r' \<in> {status r, RESPONSE_OK, INITIALIZATION_ERROR, TRANSACTION_ERROR, COMMAND_ERROR}"
proof (cases "(db_is_open s \<or> open_ok e) \<and> \<not> sole_close tx \<and> begin_ok e")
  case False
  with assms show ?thesis
    by (auto simp: RunTransaction_def Let_def split: if_splits)
next
  case True
  obtain st r' s2 vac where
    rc: "run_commands e tx (t_commands tx) r (committer_Begin (connection_opened s)) False
           = (st, r', s2, vac)"
    by (cases "run_commands e tx (t_commands tx) r (committer_Begin (connection_opened s)) False")
       auto
  from run_commands_status [OF rc] have st: "status r' = status r" "st \<noteq> RESPONSE_ERROR"
    by simp_all
  from True rc have "RunTransaction e tx (Some r) s =
     (if st \<noteq> RESPONSE_OK then (Some (r'\<lparr>status := st\<rparr>), committer_Rollback s2)
      else if \<not> commit_ok e
      then (Some (r'\<lparr>status := TRANSACTION_ERROR\<rparr>), committer_Commit_failed s2)
      else if vac then (Some r', snd (db_Execute_VACUUM e (committer_Commit s2)))
      else (Some r', committer_Commit s2))"
    by (intro RunTransaction_loop) auto
  with assms st show ?thesis
    by (cases st) (auto split: if_splits)
qed

section \<open>The claims\<close>

text \<open>
  C10. Called with a null response pointer, \<open>RunTransaction\<close> returns at once: nothing is
  opened, no command runs and the state is the one it was given. \<open>Initialize\<close> answers
  \<^verbatim>\<open>RESPONSE_ERROR\<close> exactly when its response pointer is null, which the loop of
  \<open>RunTransaction\<close> never passes: no handler called from the loop answers
  \<^verbatim>\<open>RESPONSE_ERROR\<close>, and \<open>RunTransaction\<close> never writes that status into a response
  (a response that does not hold it on entry does not hold it on return).
\<close>

theorem RunTransaction_null_response:
  "RunTransaction e tx None s = (None, s)
   \<and> (fst (Initialize e v cv ro s) = RESPONSE_ERROR) = (ro = None)
   \<and> fst (dispatch e tx c r s vac) \<noteq> RESPONSE_ERROR
   \<and> (status r \<noteq> RESPONSE_ERROR \<longrightarrow>
        (\<forall>r' s'. RunTransaction e tx (Some r) s = (Some r', s') \<longrightarrow> status r' \<noteq> RESPONSE_ERROR))"
proof -
  have a: "RunTransaction e tx None s = (None, s)"
    by (simp add: RunTransaction_def)
  have b: "(fst (Initialize e v cv ro s) = RESPONSE_ERROR) = (ro = None)"
    by (auto simp: Initialize_def meta_table_Init_def Let_def split: option.splits)
  have c: "fst (dispatch e tx c r s vac) \<noteq> RESPONSE_ERROR"
    using dispatch_status [of e tx c r s vac] by (cases "dispatch e tx c r s vac") auto
  have d: "status r \<noteq> RESPONSE_ERROR \<longrightarrow>
        (\<forall>r' s'. RunTransaction e tx (Some r) s = (Some r', s') \<longrightarrow> status r' \<noteq> RESPONSE_ERROR)"
    using RunTransaction_status [of e tx r s] by fastforce
  from a b c d show ?thesis by blast
qed

theorem RunTransaction_null_response_witness:
  "status fresh_response \<noteq> RESPONSE_ERROR
   \<and> RunTransaction sample_engine (batch [cmd READ ''SELECT'']) (Some fresh_response) new_file
       = (Some (fresh_response\<lparr>status := INITIALIZATION_ERROR\<rparr>),
          new_file\<lparr>db_is_open := True, calls := [EvOpen True, EvBegin True, EvDispatch READ, EvRollback]\<rparr>)
   \<and> status (fresh_response\<lparr>status := INITIALIZATION_ERROR\<rparr>) \<noteq> RESPONSE_ERROR"
proof -
  have run: "RunTransaction sample_engine (batch [cmd READ ''SELECT'']) (Some fresh_response) new_file
       = (Some (fresh_response\<lparr>status := INITIALIZATION_ERROR\<rparr>),
          new_file\<lparr>db_is_open := True, calls := [EvOpen True, EvBegin True, EvDispatch READ, EvRollback]\<rparr>)"
    by (simp add: RunTransaction_def sole_close_def batch_def cmd_def sample_engine_def new_file_def
          fresh_response_def connection_opened_def db_Open_def committer_Begin_def
          committer_Rollback_def dispatch_def command_defs Let_def)
  have ok: "status fresh_response \<noteq> RESPONSE_ERROR"
    by (simp add: fresh_response_def)
  from RunTransaction_null_response
         [of sample_engine "batch [cmd READ ''SELECT'']" new_file 1 1 None "cmd READ ''SELECT''"
             fresh_response False]
    run ok
  show ?thesis by simp
qed

lemmas sample_defs =
  sample_engine_def new_file_def ready_db_def fresh_response_def cmd_def batch_def

lemmas transaction_defs =
  RunTransaction_def sole_close_def connection_opened_def db_Open_def db_Close_def
  meta_table_Reset_def committer_Begin_def committer_Rollback_def committer_Commit_def
  committer_Commit_failed_def db_Execute_VACUUM_def dispatch_def

lemma new_calls_append: "calls s' = calls s @ evs \<Longrightarrow> new_calls s s' = evs"
  by (simp add: new_calls_def)

text \<open>
  C8. When the connection is open (or opens) and the batch is not the lone
  \<^verbatim>\<open>CLOSE\<close>: if \<^verbatim>\<open>Begin\<close> fails, the response status is \<^verbatim>\<open>TRANSACTION_ERROR\<close>
  and no command is dispatched; if the loop runs to its end with every status
  \<^verbatim>\<open>RESPONSE_OK\<close> and \<^verbatim>\<open>Commit\<close> fails, the response status is
  \<^verbatim>\<open>TRANSACTION_ERROR\<close> as well.
\<close>

theorem begin_or_commit_failure:
  assumes "db_is_open s \<or> open_ok e" and "\<not> sole_close tx"
  shows "(\<not> begin_ok e \<longrightarrow>
            RunTransaction e tx (Some r) s =
              (Some (r\<lparr>status := TRANSACTION_ERROR\<rparr>), logged [EvBegin False] (connection_opened s))
            \<and> dispatched (new_calls s (snd (RunTransaction e tx (Some r) s))) = [])
       \<and> (begin_ok e \<and> \<not> commit_ok e
            \<and> fst (run_commands e tx (t_commands tx) r (committer_Begin (connection_opened s)) False)
                = RESPONSE_OK \<longrightarrow>
            (\<exists>r' s'. RunTransaction e tx (Some r) s = (Some r', s')
               \<and> status r' = TRANSACTION_ERROR
               \<and> dispatched (new_calls s s') = map c_type (t_commands tx)))"
proof (intro conjI impI)
  assume nb: "\<not> begin_ok e"
  with assms show run: "RunTransaction e tx (Some r) s =
      (Some (r\<lparr>status := TRANSACTION_ERROR\<rparr>), logged [EvBegin False] (connection_opened s))"
    by (auto simp: RunTransaction_def Let_def)
  have "calls (logged [EvBegin False] (connection_opened s))
          = calls s @ ((if db_is_open s then [] else [EvOpen True]) @ [EvBegin False])"
    by (simp add: logged_def connection_opened_facts)
  from new_calls_append [OF this] run
  show "dispatched (new_calls s (snd (RunTransaction e tx (Some r) s))) = []"
    by simp
next
  assume h: "begin_ok e \<and> \<not> commit_ok e
            \<and> fst (run_commands e tx (t_commands tx) r (committer_Begin (connection_opened s)) False)
                = RESPONSE_OK"
  then obtain r' s2 vac where
    rc: "run_commands e tx (t_commands tx) r (committer_Begin (connection_opened s)) False
           = (RESPONSE_OK, r', s2, vac)"
    by (cases "run_commands e tx (t_commands tx) r (committer_Begin (connection_opened s)) False")
       auto
  from h have "begin_ok e" by simp
  from RunTransaction_loop [OF assms this rc] h
  have run: "RunTransaction e tx (Some r) s =
       (Some (r'\<lparr>status := TRANSACTION_ERROR\<rparr>), committer_Commit_failed s2)"
    by simp
  from run_commands_calls [OF rc] obtain evs where
    evs: "calls s2 = calls (committer_Begin (connection_opened s)) @ evs"
         "dispatched evs = map c_type (t_commands tx)"
    by auto
  have "calls (committer_Commit_failed s2)
          = calls s @ ((if db_is_open s then [] else [EvOpen True]) @ [EvBegin True] @ evs
                        @ [EvCommit False])"
    using evs(1)
    by (simp add: committer_Commit_failed_def logged_def committer_Begin_facts
          connection_opened_facts)
  from new_calls_append [OF this] evs(2)
  have "dispatched (new_calls s (committer_Commit_failed s2)) = map c_type (t_commands tx)"
    by (simp add: dispatched_append)
  with run show "\<exists>r' s'. RunTransaction e tx (Some r) s = (Some r', s')
               \<and> status r' = TRANSACTION_ERROR
               \<and> dispatched (new_calls s s') = map c_type (t_commands tx)"
    by simp
qed

theorem begin_or_commit_failure_witness:
  "(db_is_open new_file \<or> open_ok (sample_engine\<lparr>begin_ok := False\<rparr>))
   \<and> \<not> sole_close (batch [cmd INITIALIZE [], cmd EXECUTE ''INSERT''])
   \<and> \<not> begin_ok (sample_engine\<lparr>begin_ok := False\<rparr>)
   \<and> RunTransaction (sample_engine\<lparr>begin_ok := False\<rparr>)
        (batch [cmd INITIALIZE [], cmd EXECUTE ''INSERT'']) (Some fresh_response) new_file
       = (Some (fresh_response\<lparr>status := TRANSACTION_ERROR\<rparr>),
          new_file\<lparr>db_is_open := True, calls := [EvOpen True, EvBegin False]\<rparr>)
   \<and> begin_ok (sample_engine\<lparr>commit_ok := False\<rparr>)
   \<and> \<not> commit_ok (sample_engine\<lparr>commit_ok := False\<rparr>)
   \<and> fst (run_commands (sample_engine\<lparr>commit_ok := False\<rparr>)
            (batch [cmd INITIALIZE [], cmd EXECUTE ''INSERT''])
            (t_commands (batch [cmd INITIALIZE [], cmd EXECUTE ''INSERT''])) fresh_response
            (committer_Begin (connection_opened new_file)) False) = RESPONSE_OK
   \<and> map_option status (fst (RunTransaction (sample_engine\<lparr>commit_ok := False\<rparr>)
        (batch [cmd INITIALIZE [], cmd EXECUTE ''INSERT'']) (Some fresh_response) new_file))
       = Some TRANSACTION_ERROR"
proof -
  let ?tx = "batch [cmd INITIALIZE [], cmd EXECUTE ''INSERT'']"
  have o1: "db_is_open new_file \<or> open_ok (sample_engine\<lparr>begin_ok := False\<rparr>)"
    by (simp add: sample_defs)
  have o2: "db_is_open new_file \<or> open_ok (sample_engine\<lparr>commit_ok := False\<rparr>)"
    by (simp add: sample_defs)
  have nc: "\<not> sole_close ?tx"
    by (simp add: sole_close_def sample_defs)
  have ok: "fst (run_commands (sample_engine\<lparr>commit_ok := False\<rparr>) ?tx (t_commands ?tx)
                   fresh_response (committer_Begin (connection_opened new_file)) False)
              = RESPONSE_OK"
    by (simp add: sample_defs transaction_defs command_defs create_meta_if_absent_def
          DoesTableExist_def Let_def)
  have flags: "\<not> begin_ok (sample_engine\<lparr>begin_ok := False\<rparr>)"
      "begin_ok (sample_engine\<lparr>commit_ok := False\<rparr>)"
      "\<not> commit_ok (sample_engine\<lparr>commit_ok := False\<rparr>)"
    by (simp_all add: sample_defs)
  have opened: "logged [EvBegin False] (connection_opened new_file)
                  = new_file\<lparr>db_is_open := True, calls := [EvOpen True, EvBegin False]\<rparr>"
    by (simp add: sample_defs connection_opened_def db_Open_def logged_def)
  from begin_or_commit_failure [OF o1 nc, of fresh_response]
       begin_or_commit_failure [OF o2 nc, of fresh_response]
       o1 nc ok flags opened
  show ?thesis by auto
qed

text \<open>
  C1 (as the code has it). On a connection that is not yet initialized, over a content
  with no meta table, and when \<^verbatim>\<open>MetaTable::Init\<close> succeeds, \<open>Initialize\<close> answers
  \<^verbatim>\<open>RESPONSE_OK\<close>, creates the meta table holding the transaction's version and
  compatible version, marks the connection initialized, and reports the scalar 0 to the
  caller: the stored version is read back only when the table existed beforehand.
\<close>

theorem Initialize_new_database:
  assumes "\<not> initialized s" and "meta (db_current s) = None" and "meta_init_ok e"
  shows "\<exists>s'. Initialize e version compatible_version (Some r) s =
           (RESPONSE_OK, Some (r\<lparr>result := Some (Result_value (INT_VALUE 0))\<rparr>), s')
         \<and> meta (db_current s') = Some (version, compatible_version)
         \<and> tables (db_current s') = tables (db_current s)
         \<and> initialized s'"
  using assms
  by (auto simp: command_defs DoesTableExist_def create_meta_if_absent_def Let_def
           split: option.splits)

theorem Initialize_new_database_witness:
  "\<not> initialized new_file \<and> meta (db_current new_file) = None \<and> meta_init_ok sample_engine
   \<and> fst (Initialize sample_engine 7 4 (Some fresh_response) new_file) = RESPONSE_OK
   \<and> fst (snd (Initialize sample_engine 7 4 (Some fresh_response) new_file))
       = Some \<lparr>status = RESPONSE_OK, result = Some (Result_value (INT_VALUE 0))\<rparr>
   \<and> meta (db_current (snd (snd (Initialize sample_engine 7 4 (Some fresh_response) new_file))))
       = Some (7, 4)"
proof -
  have h: "\<not> initialized new_file" "meta (db_current new_file) = None"
      "meta_init_ok sample_engine"
    by (simp_all add: new_file_def sample_engine_def db_current_def)
  from Initialize_new_database [OF h, of 7 4 fresh_response] h
  show ?thesis by (auto simp: fresh_response_def)
qed

text \<open>
  The claim as it is written fails: the batch of one \<^verbatim>\<open>INITIALIZE\<close> with version 1 on
  a new file commits a meta table holding version 1, and reports 0, not 1.
\<close>

theorem Initialize_new_database_counterexample:
  "RunTransaction sample_engine
       \<lparr>t_commands = [cmd INITIALIZE []], t_version = 1, t_compatible_version = 1\<rparr>
       (Some fresh_response) new_file
     = (Some \<lparr>status = RESPONSE_OK, result = Some (Result_value (INT_VALUE 0))\<rparr>,
        \<lparr>db_is_open = True, db_file = \<lparr>meta = Some (1, 1), tables = 0\<rparr>, db_txn = None,
         meta_table_bound = True, initialized = True, memory_pressure_listener = True,
         calls = [EvOpen True, EvBegin True, EvDispatch INITIALIZE, EvDoesTableExist,
                  EvMetaInit True, EvCommit True]\<rparr>)
   \<and> INT_VALUE 0 \<noteq> INT_VALUE (1 :: int32)"
  by (simp add: sample_defs transaction_defs command_defs create_meta_if_absent_def
        DoesTableExist_def Let_def)

text \<open>
  C6. On a connection that is already initialized, \<open>Initialize\<close> answers
  \<^verbatim>\<open>RESPONSE_OK\<close>, reports the version stored in the meta table and leaves the whole
  state as it was: it makes no table-existence check, no \<^verbatim>\<open>MetaTable::Init\<close> call
  and no change to the content. A second \<open>Initialize\<close>, whatever versions it carries,
  gives the same report and the same state again.
\<close>

theorem Initialize_idempotent:
  assumes "initialized s"
  shows "Initialize e version compatible_version (Some r) s =
           (RESPONSE_OK,
            Some (r\<lparr>result := Some (Result_value (INT_VALUE (GetVersionNumber (db_current s))))\<rparr>),
            s)
         \<and> Initialize e' version' compatible_version'
             (fst (snd (Initialize e version compatible_version (Some r) s)))
             (snd (snd (Initialize e version compatible_version (Some r) s)))
           = Initialize e version compatible_version (Some r) s
         \<and> new_calls s (snd (snd (Initialize e version compatible_version (Some r) s))) = []"
  using assms by (simp add: Initialize_def Let_def new_calls_def)

theorem Initialize_idempotent_witness:
  "initialized ready_db
   \<and> Initialize sample_engine 9 9 (Some fresh_response) ready_db
       = (RESPONSE_OK, Some \<lparr>status = RESPONSE_OK, result = Some (Result_value (INT_VALUE 5))\<rparr>,
          ready_db)
   \<and> Initialize sample_engine 1 1
        (Some \<lparr>status = RESPONSE_OK, result = Some (Result_value (INT_VALUE 5))\<rparr>) ready_db
       = (RESPONSE_OK, Some \<lparr>status = RESPONSE_OK, result = Some (Result_value (INT_VALUE 5))\<rparr>,
          ready_db)"
proof -
  have h: "initialized ready_db" by (simp add: ready_db_def)
  have v: "GetVersionNumber (db_current ready_db) = 5"
    by (simp add: GetVersionNumber_def db_current_def ready_db_def)
  from Initialize_idempotent [OF h, of sample_engine 9 9 fresh_response sample_engine 1 1] h v
  show ?thesis by (auto simp: fresh_response_def)
qed

lemma committer_Rollback_facts:
  "db_file (committer_Rollback s) = db_file s"
  "db_txn (committer_Rollback s) = None"
  "db_is_open (committer_Rollback s) = db_is_open s"
  "calls (committer_Rollback s) = calls s @ [EvRollback]"
  by (simp_all add: committer_Rollback_def logged_def)

text \<open>
  What a batch that fails in the loop leaves behind, for a failure at the command \<open>c\<close>
  that follows the successful commands \<open>pre\<close>.
\<close>

lemma RunTransaction_fail_at:
  assumes "db_is_open s \<or> open_ok e" and "\<not> sole_close tx" and "begin_ok e"
    and "t_commands tx = pre @ c # rest"
    and "run_commands e tx pre r (committer_Begin (connection_opened s)) False
           = (RESPONSE_OK, r1, s1, v1)"
    and "dispatch e tx c r1 s1 v1 = (st, r2, s2, v2)"
    and "st \<noteq> RESPONSE_OK"
  shows "RunTransaction e tx (Some r) s = (Some (r2\<lparr>status := st\<rparr>), committer_Rollback s2)"
    and "keeps_transaction e \<longrightarrow> db_file (committer_Rollback s2) = db_file s"
    and "db_txn (committer_Rollback s2) = None"
    and "dispatched (new_calls s (committer_Rollback s2)) = map c_type (pre @ [c])"
    and "list_all (\<lambda>ev. ev \<noteq> EvCommit True \<and> \<not> is_vacuum ev \<and> ev \<noteq> EvClose)
           (new_calls s (committer_Rollback s2))"
proof -
  let ?s0 = "committer_Begin (connection_opened s)"
  from run_commands_fail_at [OF assms(5,6,7)] assms(4)
  have rc: "run_commands e tx (t_commands tx) r ?s0 False = (st, r2, s2, v2)"
    by simp
  from RunTransaction_loop [OF assms(1,2,3) rc] assms(7)
  show "RunTransaction e tx (Some r) s = (Some (r2\<lparr>status := st\<rparr>), committer_Rollback s2)"
    by simp
  have txn: "db_txn ?s0 \<noteq> None" by (simp add: committer_Begin_facts)
  show "keeps_transaction e \<longrightarrow> db_file (committer_Rollback s2) = db_file s"
  proof
    assume "keeps_transaction e"
    from run_commands_db [OF rc this txn]
    show "db_file (committer_Rollback s2) = db_file s"
      by (simp add: committer_Rollback_facts committer_Begin_facts connection_opened_facts)
  qed
  show "db_txn (committer_Rollback s2) = None"
    by (simp add: committer_Rollback_facts)
  from run_commands_calls [OF assms(5)] obtain evs1 where
    e1: "calls s1 = calls ?s0 @ evs1" "list_all loop_event evs1"
        "dispatched evs1 = map c_type pre"
    by auto
  from dispatch_calls [OF assms(6)] obtain evs2 where
    e2: "calls s2 = calls s1 @ evs2" "list_all loop_event evs2" "dispatched evs2 = [c_type c]"
    by auto
  have "calls (committer_Rollback s2)
          = calls s @ ((if db_is_open s then [] else [EvOpen True]) @ [EvBegin True] @ evs1 @ evs2
                        @ [EvRollback])"
    using e1(1) e2(1)
    by (simp add: committer_Rollback_facts committer_Begin_facts connection_opened_facts)
  from new_calls_append [OF this]
  have nc: "new_calls s (committer_Rollback s2)
          = (if db_is_open s then [] else [EvOpen True]) @ [EvBegin True] @ evs1 @ evs2
              @ [EvRollback]" .
  from nc e1(3) e2(3)
  show "dispatched (new_calls s (committer_Rollback s2)) = map c_type (pre @ [c])"
    by (simp add: dispatched_append)
  have quiet: "list_all (\<lambda>ev. ev \<noteq> EvCommit True \<and> \<not> is_vacuum ev \<and> ev \<noteq> EvClose) evs"
    if "list_all loop_event evs" for evs
    using that by (induction evs) (auto elim: loop_event.elims)
  from nc quiet [OF e1(2)] quiet [OF e2(2)]
  show "list_all (\<lambda>ev. ev \<noteq> EvCommit True \<and> \<not> is_vacuum ev \<and> ev \<noteq> EvClose)
           (new_calls s (committer_Rollback s2))"
    by simp
qed



lemmas eval_defs =
  sample_defs insert_row_def transaction_defs command_defs create_meta_if_absent_def
  DoesTableExist_def
  GetVersionNumber_def SetVersionNumber_def SetCompatibleVersionNumber_def
  GetUniqueStatement_def new_calls_def Let_def



text \<open>
  C3. On a connection that is not initialized, each of \<open>Read\<close>, \<open>Execute\<close>, \<open>Run\<close> and
  \<open>Migrate\<close> answers \<^verbatim>\<open>INITIALIZATION_ERROR\<close>. When such a command \<open>c\<close> is reached in a
  batch that goes through the transaction, after commands \<open>pre\<close> that all succeeded and
  left the connection uninitialized, the response status is
  \<^verbatim>\<open>INITIALIZATION_ERROR\<close>, the transaction is rolled back, nothing is committed and
  the stored content is the one before the call.
\<close>

theorem uninitialized_command_fails:
  assumes "db_is_open s \<or> open_ok e" and "\<not> sole_close tx" and "begin_ok e"
    and "t_commands tx = pre @ c # rest"
    and "run_commands e tx pre r (committer_Begin (connection_opened s)) False
           = (RESPONSE_OK, r1, s1, v1)"
    and "\<not> initialized s1"
    and "c_type c \<in> {READ, EXECUTE, RUN, MIGRATE}"
  shows "fst (Read e co ro s1) = INITIALIZATION_ERROR
       \<and> fst (Execute e c r1 s1) = INITIALIZATION_ERROR
       \<and> fst (Run e c r1 s1) = INITIALIZATION_ERROR
       \<and> fst (Migrate version compatible_version s1) = INITIALIZATION_ERROR
       \<and> fst (dispatch e tx c r1 s1 v1) = INITIALIZATION_ERROR
       \<and> (\<exists>s'. RunTransaction e tx (Some r) s = (Some (r1\<lparr>status := INITIALIZATION_ERROR\<rparr>), s')
             \<and> db_file s' = db_file s \<and> db_txn s' = None
             \<and> last (calls s') = EvRollback
             \<and> EvCommit True \<notin> set (new_calls s s'))"
proof -
  have handlers: "fst (Read e co ro s1) = INITIALIZATION_ERROR"
      "fst (Execute e c r1 s1) = INITIALIZATION_ERROR"
      "fst (Run e c r1 s1) = INITIALIZATION_ERROR"
      "fst (Migrate version compatible_version s1) = INITIALIZATION_ERROR"
    using assms(6) by (simp_all add: Read_def Execute_def Run_def Migrate_def)
  have d: "dispatch e tx c r1 s1 v1
             = (INITIALIZATION_ERROR, r1, logged [EvDispatch (c_type c)] s1, v1)"
    using assms(6,7)
    by (auto simp: dispatch_def Read_def Execute_def Run_def Migrate_def logged_def
          written_def Let_def)
  have ne: "INITIALIZATION_ERROR \<noteq> RESPONSE_OK" by simp
  note f = RunTransaction_fail_at [OF assms(1,2,3,4,5) d ne]
  from f(5) have nocommit: "EvCommit True \<notin> set (new_calls s
        (committer_Rollback (logged [EvDispatch (c_type c)] s1)))"
    by (auto simp: list_all_iff)
  from run_commands_uninitialized [OF assms(5,6)]
  have same: "db_file (committer_Rollback (logged [EvDispatch (c_type c)] s1)) = db_file s"
    by (simp add: committer_Rollback_facts logged_def committer_Begin_facts
          connection_opened_facts)
  with f(1,3) handlers d nocommit show ?thesis
    by (simp add: committer_Rollback_facts)
qed

theorem uninitialized_command_fails_witness:
  "\<not> initialized (logged [EvDispatch VACUUM] (committer_Begin (connection_opened new_file)))
   \<and> c_type (cmd READ ''SELECT'') \<in> {READ, EXECUTE, RUN, MIGRATE}
   \<and> fst (dispatch sample_engine
            (batch [cmd VACUUM [], cmd READ ''SELECT'', cmd EXECUTE ''INSERT''])
            (cmd READ ''SELECT'') fresh_response
            (logged [EvDispatch VACUUM] (committer_Begin (connection_opened new_file))) True)
       = INITIALIZATION_ERROR
   \<and> fst (RunTransaction sample_engine
            (batch [cmd VACUUM [], cmd READ ''SELECT'', cmd EXECUTE ''INSERT''])
            (Some fresh_response) new_file)
       = Some \<lparr>status = INITIALIZATION_ERROR, result = None\<rparr>
   \<and> db_file (snd (RunTransaction sample_engine
            (batch [cmd VACUUM [], cmd READ ''SELECT'', cmd EXECUTE ''INSERT''])
            (Some fresh_response) new_file))
       = db_file new_file"
proof -
  let ?tx = "batch [cmd VACUUM [], cmd READ ''SELECT'', cmd EXECUTE ''INSERT'']"
  let ?s1 = "logged [EvDispatch VACUUM] (committer_Begin (connection_opened new_file))"
  have h1: "db_is_open new_file \<or> open_ok sample_engine" by (simp add: sample_defs)
  have h2: "\<not> sole_close ?tx" by (simp add: sole_close_def sample_defs)
  have h3: "begin_ok sample_engine" by (simp add: sample_defs)
  have h4: "t_commands ?tx = [cmd VACUUM []] @ cmd READ ''SELECT'' # [cmd EXECUTE ''INSERT'']"
    by (simp add: sample_defs)
  have h5: "run_commands sample_engine ?tx [cmd VACUUM []] fresh_response
              (committer_Begin (connection_opened new_file)) False
            = (RESPONSE_OK, fresh_response, ?s1, True)"
    by (simp add: dispatch_def cmd_def Let_def)
  have h6: "\<not> initialized ?s1" by (simp add: eval_defs)
  have h7: "c_type (cmd READ ''SELECT'') \<in> {READ, EXECUTE, RUN, MIGRATE}"
    by (simp add: cmd_def)
  note t = uninitialized_command_fails [OF h1 h2 h3 h4 h5 h6 h7]
  from t have a: "fst (dispatch sample_engine ?tx (cmd READ ''SELECT'') fresh_response ?s1 True)
                    = INITIALIZATION_ERROR"
    by blast
  from t obtain s' where
    run: "RunTransaction sample_engine ?tx (Some fresh_response) new_file
            = (Some (fresh_response\<lparr>status := INITIALIZATION_ERROR\<rparr>), s')"
      "db_file s' = db_file new_file"
    by blast
  from run a h6 h7 show ?thesis by (simp add: fresh_response_def)
qed

lemma loop_events_quiet:
  assumes "list_all loop_event evs"
  shows "list_all (\<lambda>ev. \<not> is_vacuum ev \<and> ev \<noteq> EvClose \<and> ev \<noteq> EvRollback
            \<and> ev \<noteq> EvCommit True \<and> ev \<noteq> EvCommit False
            \<and> ev \<noteq> EvBegin True \<and> ev \<noteq> EvBegin False) evs"
  using assms by (induction evs) (auto elim: loop_event.elims)






lemma sole_close_iff: "sole_close tx = (\<exists>c. t_commands tx = [c] \<and> c_type c = CLOSE)"
  by (cases "t_commands tx") (auto simp: sole_close_def)

text \<open>
  The calls of a batch that is not the lone \<^verbatim>\<open>CLOSE\<close>: \<^verbatim>\<open>Begin\<close> is tried, the
  connection is never closed, and the connection is open afterwards.
\<close>

lemma RunTransaction_not_sole_close:
  assumes "db_is_open s \<or> open_ok e" and "\<not> sole_close tx"
  shows "db_is_open (snd (RunTransaction e tx (Some r) s))"
    and "EvClose \<notin> set (new_calls s (snd (RunTransaction e tx (Some r) s)))"
    and "EvBegin True \<in> set (new_calls s (snd (RunTransaction e tx (Some r) s)))
         \<or> EvBegin False \<in> set (new_calls s (snd (RunTransaction e tx (Some r) s)))"
proof -
  let ?out = "snd (RunTransaction e tx (Some r) s)"
  have "db_is_open ?out \<and> EvClose \<notin> set (new_calls s ?out)
        \<and> (EvBegin True \<in> set (new_calls s ?out) \<or> EvBegin False \<in> set (new_calls s ?out))"
  proof (cases "begin_ok e")
    case False
    with assms show ?thesis
      by (auto simp: RunTransaction_def Let_def logged_def new_calls_def
            connection_opened_def db_Open_def)
  next
    case True
    let ?s0 = "committer_Begin (connection_opened s)"
    obtain st r' s2 vac where
      rc: "run_commands e tx (t_commands tx) r ?s0 False = (st, r', s2, vac)"
      by (cases "run_commands e tx (t_commands tx) r ?s0 False") auto
    have txn: "db_txn ?s0 \<noteq> None" by (simp add: committer_Begin_facts)
    from run_commands_open [OF rc] have op: "db_is_open s2"
      by (simp add: committer_Begin_facts connection_opened_facts)
    from run_commands_calls [OF rc] obtain evs where
      evs: "calls s2 = calls s @ ((if db_is_open s then [] else [EvOpen True]) @ [EvBegin True]
                                   @ evs)"
        "list_all loop_event evs"
      by (auto simp: committer_Begin_facts connection_opened_facts)
    from loop_events_quiet [OF evs(2)] have q: "EvClose \<notin> set evs"
      by (auto simp: list_all_iff)
    obtain ok s4 where vacuum: "db_Execute_VACUUM e (committer_Commit s2) = (ok, s4)"
      by (cases "db_Execute_VACUUM e (committer_Commit s2)") auto
    then have s4: "db_is_open s4 = db_is_open s2"
        "calls s4 = calls s2 @ [EvCommit True, EvVacuum ok]"
      by (auto simp: db_Execute_VACUUM_def committer_Commit_def logged_def db_state_def
            db_set_def db_current_def split: option.splits prod.splits)
    have shape: "?out = committer_Rollback s2 \<or> ?out = committer_Commit_failed s2
                 \<or> ?out = committer_Commit s2 \<or> ?out = s4"
      using RunTransaction_loop [OF assms True rc] vacuum by (auto split: if_splits)
    have each: "db_is_open t \<and> EvClose \<notin> set (new_calls s t)
                \<and> EvBegin True \<in> set (new_calls s t)"
      if "t = committer_Rollback s2 \<or> t = committer_Commit_failed s2
          \<or> t = committer_Commit s2 \<or> t = s4" for t
      using that op evs(1) q s4
      by (auto simp: new_calls_def committer_Rollback_def committer_Commit_failed_def
            committer_Commit_def logged_def split: if_splits)
    from each [OF shape] show ?thesis by blast
  qed
  then show "db_is_open ?out" and "EvClose \<notin> set (new_calls s ?out)"
    and "EvBegin True \<in> set (new_calls s ?out) \<or> EvBegin False \<in> set (new_calls s ?out)"
    by blast+
qed

text \<open>
  C4. Provided the connection is open or opens: when the batch is exactly one
  \<^verbatim>\<open>CLOSE\<close> command, \<open>RunTransaction\<close> closes the connection, resets the meta table
  object, marks the connection uninitialized and answers \<^verbatim>\<open>RESPONSE_OK\<close>; the calls
  it makes are the opening (if needed), the close and the reset, so no transaction is
  begun or committed, and the stored content is untouched. For every other batch
  \<^verbatim>\<open>Begin\<close> is tried, the connection is not closed and it is open afterwards. So the
  connection is closed exactly when the batch is one \<^verbatim>\<open>CLOSE\<close> command.
\<close>

theorem close_alone_in_batch:
  assumes "db_is_open s \<or> open_ok e"
  shows "((\<exists>c. t_commands tx = [c] \<and> c_type c = CLOSE) \<longrightarrow>
            (\<exists>s'. RunTransaction e tx (Some r) s = (Some (r\<lparr>status := RESPONSE_OK\<rparr>), s')
               \<and> \<not> db_is_open s' \<and> \<not> meta_table_bound s' \<and> \<not> initialized s'
               \<and> db_file s' = db_file s \<and> db_txn s' = None
               \<and> new_calls s s'
                   = (if db_is_open s then [] else [EvOpen True]) @ [EvClose, EvMetaReset]))
       \<and> (\<not> (\<exists>c. t_commands tx = [c] \<and> c_type c = CLOSE) \<longrightarrow>
            db_is_open (snd (RunTransaction e tx (Some r) s))
            \<and> EvClose \<notin> set (new_calls s (snd (RunTransaction e tx (Some r) s)))
            \<and> (EvBegin True \<in> set (new_calls s (snd (RunTransaction e tx (Some r) s)))
               \<or> EvBegin False \<in> set (new_calls s (snd (RunTransaction e tx (Some r) s)))))
       \<and> ((\<exists>c. t_commands tx = [c] \<and> c_type c = CLOSE)
            = (EvClose \<in> set (new_calls s (snd (RunTransaction e tx (Some r) s)))))"
proof -
  have yes: "\<exists>s'. RunTransaction e tx (Some r) s = (Some (r\<lparr>status := RESPONSE_OK\<rparr>), s')
               \<and> \<not> db_is_open s' \<and> \<not> meta_table_bound s' \<and> \<not> initialized s'
               \<and> db_file s' = db_file s \<and> db_txn s' = None
               \<and> new_calls s s'
                   = (if db_is_open s then [] else [EvOpen True]) @ [EvClose, EvMetaReset]"
    if "sole_close tx"
    using that assms
    by (auto simp: RunTransaction_def Let_def connection_opened_def db_Open_def db_Close_def
          meta_table_Reset_def logged_def new_calls_def)
  note no = RunTransaction_not_sole_close [OF assms, of tx r]
  have closed: "EvClose \<in> set (new_calls s (snd (RunTransaction e tx (Some r) s)))"
    if "sole_close tx"
    using yes [OF that] by auto
  from yes no closed show ?thesis
    unfolding sole_close_iff [symmetric] by blast
qed

theorem close_alone_in_batch_witness:
  "(db_is_open ready_db \<or> open_ok sample_engine)
   \<and> (\<exists>c. t_commands (batch [cmd CLOSE []]) = [c] \<and> c_type c = CLOSE)
   \<and> RunTransaction sample_engine (batch [cmd CLOSE []]) (Some fresh_response) ready_db
       = (Some \<lparr>status = RESPONSE_OK, result = None\<rparr>,
          \<lparr>db_is_open = False, db_file = \<lparr>meta = Some (5, 3), tables = 2\<rparr>, db_txn = None,
           meta_table_bound = False, initialized = False, memory_pressure_listener = True,
           calls = [EvClose, EvMetaReset]\<rparr>)
   \<and> \<not> (\<exists>c. t_commands (batch [cmd CLOSE [], cmd CLOSE []]) = [c] \<and> c_type c = CLOSE)
   \<and> db_is_open (snd (RunTransaction sample_engine (batch [cmd CLOSE [], cmd CLOSE []])
                         (Some fresh_response) ready_db))
   \<and> EvClose \<notin> set (new_calls ready_db
         (snd (RunTransaction sample_engine (batch [cmd CLOSE [], cmd CLOSE []])
                 (Some fresh_response) ready_db)))"
proof -
  have h: "db_is_open ready_db \<or> open_ok sample_engine" by (simp add: sample_defs)
  have one: "\<exists>c. t_commands (batch [cmd CLOSE []]) = [c] \<and> c_type c = CLOSE"
    by (simp add: sample_defs)
  have two: "\<not> (\<exists>c. t_commands (batch [cmd CLOSE [], cmd CLOSE []]) = [c] \<and> c_type c = CLOSE)"
    by (simp add: sample_defs)
  have run: "RunTransaction sample_engine (batch [cmd CLOSE []]) (Some fresh_response) ready_db
       = (Some \<lparr>status = RESPONSE_OK, result = None\<rparr>,
          \<lparr>db_is_open = False, db_file = \<lparr>meta = Some (5, 3), tables = 2\<rparr>, db_txn = None,
           meta_table_bound = False, initialized = False, memory_pressure_listener = True,
           calls = [EvClose, EvMetaReset]\<rparr>)"
    by (simp add: eval_defs)
  from close_alone_in_batch [OF h, of "batch [cmd CLOSE [], cmd CLOSE []]" fresh_response] two
  have "db_is_open (snd (RunTransaction sample_engine (batch [cmd CLOSE [], cmd CLOSE []])
                         (Some fresh_response) ready_db))
   \<and> EvClose \<notin> set (new_calls ready_db
         (snd (RunTransaction sample_engine (batch [cmd CLOSE [], cmd CLOSE []])
                 (Some fresh_response) ready_db)))"
    by blast
  with h one two run close_alone_in_batch [OF h, of "batch [cmd CLOSE []]" fresh_response]
  show ?thesis by blast
qed

lemma run_commands_vacuum_set:
  assumes "run_commands e tx cmds r s v = (RESPONSE_OK, r', s', v')"
    and "v \<or> VACUUM \<in> c_type ` set cmds"
  shows "v'"
  using assms
proof (induction cmds arbitrary: r s v)
  case Nil
  then show ?case by auto
next
  case (Cons c cmds)
  obtain st1 r1 s1 v1 where d: "dispatch e tx c r s v = (st1, r1, s1, v1)"
    by (cases "dispatch e tx c r s v") auto
  with Cons.prems(1) have ok: "st1 = RESPONSE_OK"
    by (auto split: if_splits)
  have dv: "v \<or> c_type c = VACUUM \<longrightarrow> v1"
    using d by (cases "c_type c") (auto simp: dispatch_def Let_def split: prod.splits)
  from ok Cons.prems(1) d have rc: "run_commands e tx cmds r1 s1 v1 = (RESPONSE_OK, r', s', v')"
    by simp
  from Cons.prems(2) dv have "v1 \<or> VACUUM \<in> c_type ` set cmds" by auto
  from Cons.IH [OF rc this] show ?case .
qed

text \<open>
  The calls of a whole \<open>RunTransaction\<close>: either no \<^verbatim>\<open>VACUUM\<close> statement is among them,
  or they end with the successful commit followed by the one \<^verbatim>\<open>VACUUM\<close> statement,
  and then the response is the loop's, with the status it had on entry.
\<close>

lemma RunTransaction_vacuum_shape:
  assumes "RunTransaction e tx (Some r) s = (ro, s')"
  shows "list_all (\<lambda>ev. \<not> is_vacuum ev) (new_calls s s')
       \<or> (\<exists>evs ok r'. new_calls s s' = evs @ [EvCommit True, EvVacuum ok]
             \<and> list_all before_commit evs
             \<and> ro = Some r' \<and> status r' = status r
             \<and> VACUUM \<in> c_type ` set (t_commands tx))"
proof (cases "(db_is_open s \<or> open_ok e) \<and> \<not> sole_close tx \<and> begin_ok e")
  case False
  with assms have "list_all (\<lambda>ev. \<not> is_vacuum ev) (new_calls s s')"
    by (auto simp: RunTransaction_def Let_def logged_def new_calls_def connection_opened_def
          db_Open_def db_Close_def meta_table_Reset_def split: if_splits)
  then show ?thesis by blast
next
  case True
  let ?s0 = "committer_Begin (connection_opened s)"
  let ?opening = "(if db_is_open s then [] else [EvOpen True]) @ [EvBegin True]"
  obtain st r' s2 vac where
    rc: "run_commands e tx (t_commands tx) r ?s0 False = (st, r', s2, vac)"
    by (cases "run_commands e tx (t_commands tx) r ?s0 False") auto
  from run_commands_calls [OF rc] obtain evs where
    evs: "calls s2 = calls s @ (?opening @ evs)" "list_all loop_event evs"
    by (auto simp: committer_Begin_facts connection_opened_facts)
  from loop_events_quiet [OF evs(2)] have q: "list_all (\<lambda>ev. \<not> is_vacuum ev) evs"
    by (auto simp: list_all_iff)
  have bc: "list_all before_commit (?opening @ evs)"
    using evs(2) by (auto simp: before_commit_def list_all_iff)
  from True rc have run: "RunTransaction e tx (Some r) s =
     (if st \<noteq> RESPONSE_OK then (Some (r'\<lparr>status := st\<rparr>), committer_Rollback s2)
      else if \<not> commit_ok e
      then (Some (r'\<lparr>status := TRANSACTION_ERROR\<rparr>), committer_Commit_failed s2)
      else if vac then (Some r', snd (db_Execute_VACUUM e (committer_Commit s2)))
      else (Some r', committer_Commit s2))"
    by (intro RunTransaction_loop) auto
  show ?thesis
  proof (cases "st = RESPONSE_OK \<and> commit_ok e \<and> vac")
    case False
    with run assms have "s' = committer_Rollback s2 \<or> s' = committer_Commit_failed s2
        \<or> s' = committer_Commit s2"
      by (auto split: if_splits)
    with evs(1) q have "list_all (\<lambda>ev. \<not> is_vacuum ev) (new_calls s s')"
      by (auto simp: new_calls_def committer_Rollback_def committer_Commit_failed_def
            committer_Commit_def logged_def)
    then show ?thesis by blast
  next
    case vacuumed: True
    obtain ok s4 where vacuum: "db_Execute_VACUUM e (committer_Commit s2) = (ok, s4)"
      by (cases "db_Execute_VACUUM e (committer_Commit s2)") auto
    then have "calls s4 = calls s2 @ [EvCommit True, EvVacuum ok]"
      by (auto simp: db_Execute_VACUUM_def committer_Commit_def logged_def db_state_def
            db_set_def db_current_def split: option.splits prod.splits)
    with evs(1) have "calls s4 = calls s @ ((?opening @ evs) @ [EvCommit True, EvVacuum ok])"
      by simp
    from new_calls_append [OF this]
    have nc: "new_calls s s4 = (?opening @ evs) @ [EvCommit True, EvVacuum ok]" .
    from vacuumed run assms vacuum have out: "ro = Some r'" "s' = s4" by auto
    from run_commands_status [OF rc] have st: "status r' = status r" by simp
    from vacuumed run_commands_vacuum_flag [OF rc]
    have req: "VACUUM \<in> c_type ` set (t_commands tx)" by simp
    from nc bc out st req show ?thesis by blast
  qed
qed

text \<open>
  C7. In the loop a \<^verbatim>\<open>VACUUM\<close> command only sets the flag and has status
  \<^verbatim>\<open>RESPONSE_OK\<close>. Over a whole call of \<open>RunTransaction\<close> the \<^verbatim>\<open>VACUUM\<close> statement
  is executed at most once. When it is executed, whether it succeeds or fails, it is the
  last call and comes right after the successful commit, before which there was no
  rollback and no failed open, begin or commit; the batch did hold a \<^verbatim>\<open>VACUUM\<close>
  command; and the response status is the one the response had on entry
  (\<^verbatim>\<open>RESPONSE_OK\<close> for a fresh response). So a batch that is rolled back, or whose
  commit fails, executes no \<^verbatim>\<open>VACUUM\<close>. When the loop succeeds on a batch holding a
  \<^verbatim>\<open>VACUUM\<close> command and the commit succeeds, the statement is executed.
\<close>

theorem vacuum_only_after_commit:
  "(c_type c = VACUUM \<longrightarrow>
      dispatch e tx c r1 s1 v1 = (RESPONSE_OK, r1, logged [EvDispatch VACUUM] s1, True))
   \<and> (RunTransaction e tx (Some r) s = (ro, s') \<longrightarrow>
        length (filter is_vacuum (new_calls s s')) \<le> 1
        \<and> (\<forall>ok. EvVacuum ok \<in> set (new_calls s s') \<longrightarrow>
              (\<exists>evs r'. new_calls s s' = evs @ [EvCommit True, EvVacuum ok]
                  \<and> list_all before_commit evs
                  \<and> ro = Some r' \<and> status r' = status r)
              \<and> VACUUM \<in> c_type ` set (t_commands tx))
        \<and> (EvRollback \<in> set (new_calls s s') \<or> EvCommit False \<in> set (new_calls s s')
            \<or> EvBegin False \<in> set (new_calls s s') \<or> EvOpen False \<in> set (new_calls s s') \<longrightarrow>
            (\<forall>ok. EvVacuum ok \<notin> set (new_calls s s'))))
   \<and> ((db_is_open s \<or> open_ok e) \<and> \<not> sole_close tx \<and> begin_ok e \<and> commit_ok e
        \<and> fst (run_commands e tx (t_commands tx) r (committer_Begin (connection_opened s)) False)
            = RESPONSE_OK
        \<and> VACUUM \<in> c_type ` set (t_commands tx) \<longrightarrow>
        (\<exists>ok. last (calls (snd (RunTransaction e tx (Some r) s))) = EvVacuum ok))"
proof -
  have flag: "dispatch e tx c r1 s1 v1 = (RESPONSE_OK, r1, logged [EvDispatch VACUUM] s1, True)"
    if "c_type c = VACUUM"
    using that by (simp add: dispatch_def Let_def)
  have quiet: "\<not> is_vacuum ev \<and> ev \<noteq> EvRollback \<and> ev \<noteq> EvCommit False
               \<and> ev \<noteq> EvBegin False \<and> ev \<noteq> EvOpen False"
    if "before_commit ev" for ev
    using that by (auto simp: before_commit_def elim: loop_event.elims)
  have whole: "length (filter is_vacuum (new_calls s s')) \<le> 1
        \<and> (\<forall>ok. EvVacuum ok \<in> set (new_calls s s') \<longrightarrow>
              (\<exists>evs r'. new_calls s s' = evs @ [EvCommit True, EvVacuum ok]
                  \<and> list_all before_commit evs
                  \<and> ro = Some r' \<and> status r' = status r)
              \<and> VACUUM \<in> c_type ` set (t_commands tx))
        \<and> (EvRollback \<in> set (new_calls s s') \<or> EvCommit False \<in> set (new_calls s s')
            \<or> EvBegin False \<in> set (new_calls s s') \<or> EvOpen False \<in> set (new_calls s s') \<longrightarrow>
            (\<forall>ok. EvVacuum ok \<notin> set (new_calls s s')))"
    if run: "RunTransaction e tx (Some r) s = (ro, s')"
  proof -
    from RunTransaction_vacuum_shape [OF run]
    consider (none) "list_all (\<lambda>ev. \<not> is_vacuum ev) (new_calls s s')"
      | (one) evs ok r' where "new_calls s s' = evs @ [EvCommit True, EvVacuum ok]"
          "list_all before_commit evs" "ro = Some r'" "status r' = status r"
          "VACUUM \<in> c_type ` set (t_commands tx)"
      by blast
    then show ?thesis
    proof cases
      case none
      then have "filter is_vacuum (new_calls s s') = []"
        by (auto simp: list_all_iff filter_empty_conv)
      moreover from none have "\<forall>ok. EvVacuum ok \<notin> set (new_calls s s')"
        by (auto simp: list_all_iff)
      ultimately show ?thesis by simp
    next
      case one
      from one(2) quiet have q: "\<forall>ev \<in> set evs. \<not> is_vacuum ev \<and> ev \<noteq> EvRollback
          \<and> ev \<noteq> EvCommit False \<and> ev \<noteq> EvBegin False \<and> ev \<noteq> EvOpen False"
        by (auto simp: list_all_iff)
      then have "filter is_vacuum evs = []"
        by (auto simp: filter_empty_conv)
      with one(1) have count: "length (filter is_vacuum (new_calls s s')) \<le> 1"
        by simp
      have only: "ok' = ok" if "EvVacuum ok' \<in> set (new_calls s s')" for ok'
      proof -
        from that one(1) have "EvVacuum ok' \<in> set evs \<or> EvVacuum ok' = EvVacuum ok"
          by auto
        moreover have "EvVacuum ok' \<notin> set evs"
        proof
          assume "EvVacuum ok' \<in> set evs"
          with q have "\<not> is_vacuum (EvVacuum ok')" by blast
          then show False by simp
        qed
        ultimately show ?thesis by simp
      qed
      have clean: "EvRollback \<notin> set (new_calls s s')" "EvCommit False \<notin> set (new_calls s s')"
          "EvBegin False \<notin> set (new_calls s s')" "EvOpen False \<notin> set (new_calls s s')"
        using one(1) q by auto
      have shape: "(\<exists>evs r'. new_calls s s' = evs @ [EvCommit True, EvVacuum ok']
                  \<and> list_all before_commit evs
                  \<and> ro = Some r' \<and> status r' = status r)
              \<and> VACUUM \<in> c_type ` set (t_commands tx)"
        if "EvVacuum ok' \<in> set (new_calls s s')" for ok'
      proof -
        from only [OF that] have "ok' = ok" .
        with one show ?thesis by auto
      qed
      from clean have none_failed:
        "EvRollback \<in> set (new_calls s s') \<or> EvCommit False \<in> set (new_calls s s')
            \<or> EvBegin False \<in> set (new_calls s s') \<or> EvOpen False \<in> set (new_calls s s') \<longrightarrow>
            (\<forall>ok. EvVacuum ok \<notin> set (new_calls s s'))"
        by simp
      from shape have "\<forall>ok. EvVacuum ok \<in> set (new_calls s s') \<longrightarrow>
              (\<exists>evs r'. new_calls s s' = evs @ [EvCommit True, EvVacuum ok]
                  \<and> list_all before_commit evs
                  \<and> ro = Some r' \<and> status r' = status r)
              \<and> VACUUM \<in> c_type ` set (t_commands tx)"
        by (intro allI impI)
      with count none_failed show ?thesis by (intro conjI)
    qed
  qed
  have runs: "\<exists>ok. last (calls (snd (RunTransaction e tx (Some r) s))) = EvVacuum ok"
    if h: "(db_is_open s \<or> open_ok e) \<and> \<not> sole_close tx \<and> begin_ok e \<and> commit_ok e
        \<and> fst (run_commands e tx (t_commands tx) r (committer_Begin (connection_opened s)) False)
            = RESPONSE_OK
        \<and> VACUUM \<in> c_type ` set (t_commands tx)"
  proof -
    let ?s0 = "committer_Begin (connection_opened s)"
    from h obtain r' s2 vac where
      rc: "run_commands e tx (t_commands tx) r ?s0 False = (RESPONSE_OK, r', s2, vac)"
      by (cases "run_commands e tx (t_commands tx) r ?s0 False") auto
    from h run_commands_vacuum_set [OF rc] have vac by simp
    from h rc have "RunTransaction e tx (Some r) s =
       (if RESPONSE_OK \<noteq> RESPONSE_OK
        then (Some (r'\<lparr>status := RESPONSE_OK\<rparr>), committer_Rollback s2)
        else if \<not> commit_ok e
        then (Some (r'\<lparr>status := TRANSACTION_ERROR\<rparr>), committer_Commit_failed s2)
        else if vac then (Some r', snd (db_Execute_VACUUM e (committer_Commit s2)))
        else (Some r', committer_Commit s2))"
      by (intro RunTransaction_loop) auto
    with h \<open>vac\<close> have "snd (RunTransaction e tx (Some r) s)
        = snd (db_Execute_VACUUM e (committer_Commit s2))"
      by simp
    then show ?thesis
      by (auto simp: db_Execute_VACUUM_def logged_def db_set_def
            split: option.splits prod.splits)
  qed
  show ?thesis
  proof (intro conjI impI)
    assume "c_type c = VACUUM"
    from flag [OF this]
    show "dispatch e tx c r1 s1 v1 = (RESPONSE_OK, r1, logged [EvDispatch VACUUM] s1, True)" .
  qed (use whole runs in simp_all)
qed

theorem vacuum_only_after_commit_witness:
  "c_type (cmd VACUUM []) = VACUUM
   \<and> dispatch no_execute_engine (batch [cmd VACUUM [], cmd RUN ''INSERT'', cmd VACUUM []])
        (cmd VACUUM []) fresh_response ready_db False
       = (RESPONSE_OK, fresh_response, logged [EvDispatch VACUUM] ready_db, True)
   \<and> RunTransaction no_execute_engine (batch [cmd VACUUM [], cmd RUN ''INSERT'', cmd VACUUM []])
        (Some fresh_response) ready_db
       = (Some \<lparr>status = RESPONSE_OK, result = Some (Result_value (INT_VALUE 1))\<rparr>,
          ready_db\<lparr>db_file := \<lparr>meta = Some (5, 3), tables = 3\<rparr>,
                   calls := [EvBegin True, EvDispatch VACUUM, EvDispatch RUN, EvDispatch VACUUM,
                             EvCommit True, EvVacuum False]\<rparr>)
   \<and> EvVacuum False \<in> set (new_calls ready_db
         (ready_db\<lparr>db_file := \<lparr>meta = Some (5, 3), tables = 3\<rparr>,
                   calls := [EvBegin True, EvDispatch VACUUM, EvDispatch RUN, EvDispatch VACUUM,
                             EvCommit True, EvVacuum False]\<rparr>))
   \<and> VACUUM \<in> c_type ` set (t_commands (batch [cmd VACUUM [], cmd RUN ''INSERT'', cmd VACUUM []]))
   \<and> RunTransaction sample_engine (batch [cmd VACUUM [], cmd EXECUTE ''BAD''])
        (Some fresh_response) ready_db
       = (Some \<lparr>status = COMMAND_ERROR, result = None\<rparr>,
          ready_db\<lparr>calls := [EvBegin True, EvDispatch VACUUM, EvDispatch EXECUTE, EvRollback]\<rparr>)
   \<and> EvRollback \<in> set (new_calls ready_db
         (ready_db\<lparr>calls := [EvBegin True, EvDispatch VACUUM, EvDispatch EXECUTE, EvRollback]\<rparr>))
   \<and> EvVacuum True \<notin> set (new_calls ready_db
         (ready_db\<lparr>calls := [EvBegin True, EvDispatch VACUUM, EvDispatch EXECUTE, EvRollback]\<rparr>))
   \<and> EvVacuum False \<notin> set (new_calls ready_db
         (ready_db\<lparr>calls := [EvBegin True, EvDispatch VACUUM, EvDispatch EXECUTE, EvRollback]\<rparr>))
   \<and> last (calls (snd (RunTransaction no_execute_engine
         (batch [cmd VACUUM [], cmd RUN ''INSERT'', cmd VACUUM []]) (Some fresh_response) ready_db)))
       = EvVacuum False"
proof -
  let ?tx = "batch [cmd VACUUM [], cmd RUN ''INSERT'', cmd VACUUM []]"
  let ?s' = "ready_db\<lparr>db_file := \<lparr>meta = Some (5, 3), tables = 3\<rparr>,
                   calls := [EvBegin True, EvDispatch VACUUM, EvDispatch RUN, EvDispatch VACUUM,
                             EvCommit True, EvVacuum False]\<rparr>"
  let ?r' = "\<lparr>status = RESPONSE_OK, result = Some (Result_value (INT_VALUE 1))\<rparr>"
  let ?bad = "batch [cmd VACUUM [], cmd EXECUTE ''BAD'']"
  let ?t' = "ready_db\<lparr>calls := [EvBegin True, EvDispatch VACUUM, EvDispatch EXECUTE,
                                  EvRollback]\<rparr>"
  have c: "c_type (cmd VACUUM []) = VACUUM" by (simp add: cmd_def)
  have run: "RunTransaction no_execute_engine ?tx (Some fresh_response) ready_db = (Some ?r', ?s')"
    by (simp add: no_execute_engine_def eval_defs bind_all.simps)
  have ran: "EvVacuum False \<in> set (new_calls ready_db ?s')"
    by (simp add: new_calls_def ready_db_def)
  have req: "VACUUM \<in> c_type ` set (t_commands ?tx)" by (simp add: sample_defs)
  have bad: "RunTransaction sample_engine ?bad (Some fresh_response) ready_db
               = (Some \<lparr>status = COMMAND_ERROR, result = None\<rparr>, ?t')"
    by (simp add: eval_defs)
  have rolled: "EvRollback \<in> set (new_calls ready_db ?t')"
    by (simp add: new_calls_def ready_db_def)
  have pre: "(db_is_open ready_db \<or> open_ok no_execute_engine) \<and> \<not> sole_close ?tx
        \<and> begin_ok no_execute_engine \<and> commit_ok no_execute_engine
        \<and> fst (run_commands no_execute_engine ?tx (t_commands ?tx) fresh_response
                 (committer_Begin (connection_opened ready_db)) False) = RESPONSE_OK
        \<and> VACUUM \<in> c_type ` set (t_commands ?tx)"
    by (simp add: no_execute_engine_def eval_defs bind_all.simps)
  note good = vacuum_only_after_commit
    [of "cmd VACUUM []" no_execute_engine ?tx fresh_response ready_db False fresh_response
        ready_db "Some ?r'" ?s']
  note failed = vacuum_only_after_commit
    [of "cmd VACUUM []" sample_engine ?bad fresh_response ready_db False fresh_response
        ready_db "Some \<lparr>status = COMMAND_ERROR, result = None\<rparr>" ?t']
  from good c have d: "dispatch no_execute_engine ?tx (cmd VACUUM []) fresh_response ready_db False
       = (RESPONSE_OK, fresh_response, logged [EvDispatch VACUUM] ready_db, True)"
    by blast
  from good pre have l: "\<exists>ok. last (calls (snd (RunTransaction no_execute_engine ?tx
                             (Some fresh_response) ready_db))) = EvVacuum ok"
    by blast
  with run have l': "last (calls (snd (RunTransaction no_execute_engine ?tx
                             (Some fresh_response) ready_db))) = EvVacuum False"
    by simp
  from failed bad rolled have nv: "\<forall>ok. EvVacuum ok \<notin> set (new_calls ready_db ?t')"
    by blast
  from c d run ran req bad rolled nv l' show ?thesis by simp
qed

lemma record_inferred_fields:
  "record_inferred e st column rcd =
     rcd\<lparr>r_fields := r_fields rcd @ map (inferred_value e st) [column..<ColumnCount st]\<rparr>"
proof (induction e st column rcd rule: record_inferred.induct)
  case (1 e st column rcd)
  show ?case
  proof (cases "column < ColumnCount st")
    case True
    from "1" [OF True] True show ?thesis
      by (subst record_inferred.simps) (simp add: upt_conv_Cons)
  next
    case False
    then show ?thesis
      by (subst record_inferred.simps) simp
  qed
qed

lemma inferred_value_of_column:
  assumes "column < length row"
  shows "inferred_value e (st\<lparr>st_row := row\<rparr>) column = spec_inferred_value (row ! column)"
  using assms
  by (cases "row ! column")
     (simp_all add: inferred_value_def GetColumnType_def column_at_def ColumnInt64_def
        ColumnDouble_def ColumnString_def ColumnBlobAsString_def)

lemma CreateRecord_inferred:
  "CreateRecord e (Some (st\<lparr>st_row := row\<rparr>)) [] = \<lparr>r_fields = map spec_inferred_value row\<rparr>"
proof -
  have "map (inferred_value e (st\<lparr>st_row := row\<rparr>)) [0..<length row]
          = map (\<lambda>i. spec_inferred_value (row ! i)) [0..<length row]"
    by (rule map_cong) (simp_all add: inferred_value_of_column)
  also have "\<dots> = map spec_inferred_value (map ((!) row) [0..<length row])"
    by simp
  also have "\<dots> = map spec_inferred_value row"
    by (simp only: map_nth)
  finally show ?thesis
    by (simp add: CreateRecord_def record_inferred_fields ColumnCount_def)
qed

lemma read_rows_collects:
  "read_rows e st bindings steps records =
     records @ map (\<lambda>row. CreateRecord e (Some (st\<lparr>st_row := row\<rparr>)) bindings)
                 (spec_rows_until_stop steps)"
  by (induction e st bindings steps records rule: read_rows.induct) simp_all

lemma spec_rows_until_stop_rows:
  "spec_rows_until_stop (map StepRow rows) = rows"
  "spec_rows_until_stop (map StepRow rows @ StepError # rest) = rows"
  "spec_rows_until_stop (map StepRow rows @ StepDone # rest) = rows"
  by (induction rows) simp_all

text \<open>
  C9. On an initialized connection, with a command and a response at hand, \<open>Read\<close>
  answers \<^verbatim>\<open>RESPONSE_OK\<close> and its result holds one record per row that stepping
  yields before it first stops, in stepping order, each made by \<open>CreateRecord\<close> from
  that row. Stepping stops at the end of the result and at a stepping error alike: the
  rows before an error are returned and the status stays \<^verbatim>\<open>RESPONSE_OK\<close>. With no
  \<^verbatim>\<open>record_bindings\<close>, \<open>CreateRecord\<close> turns each column into the value of its
  runtime type: integer to Int64, float to Double, text to String, blob to String, null to
  Null (with placeholder 0).
\<close>

theorem Read_collects_rows:
  assumes "initialized s"
  shows "(\<exists>s'. Read e (Some c) (Some r) s =
            (RESPONSE_OK,
             Some (r\<lparr>result := Some (Result_records
               (map (\<lambda>row. CreateRecord e
                       (Some ((bind_all (GetUniqueStatement (c_command c)) (c_bindings c))
                                \<lparr>st_row := row\<rparr>))
                       (c_record_bindings c))
                  (spec_rows_until_stop
                     (fst (sql_step e (bind_all (GetUniqueStatement (c_command c)) (c_bindings c))
                             (db_state s))))))\<rparr>),
             s'))
       \<and> CreateRecord e (Some (st\<lparr>st_row := row\<rparr>)) []
           = \<lparr>r_fields = map spec_inferred_value row\<rparr>
       \<and> spec_rows_until_stop (map StepRow rows) = rows
       \<and> spec_rows_until_stop (map StepRow rows @ StepDone # rest) = rows
       \<and> spec_rows_until_stop (map StepRow rows @ StepError # rest) = rows"
  using assms
  by (simp add: Read_def Let_def read_rows_collects CreateRecord_inferred
        spec_rows_until_stop_rows split: prod.splits)

theorem Read_collects_rows_witness:
  "initialized ready_db
   \<and> fst (Read sample_engine (Some (cmd READ ''SELECT'')) (Some fresh_response) ready_db)
       = RESPONSE_OK
   \<and> fst (snd (Read sample_engine (Some (cmd READ ''SELECT'')) (Some fresh_response) ready_db))
       = Some \<lparr>status = RESPONSE_OK,
               result = Some (Result_records
                 [\<lparr>r_fields = [INT64_VALUE 1, STRING_VALUE ''a'']\<rparr>,
                  \<lparr>r_fields = [NULL_VALUE 0, STRING_VALUE ''b'']\<rparr>])\<rparr>"
proof -
  have h: "initialized ready_db" by (simp add: ready_db_def)
  have steps: "fst (sql_step sample_engine
                  (bind_all (GetUniqueStatement (c_command (cmd READ ''SELECT'')))
                     (c_bindings (cmd READ ''SELECT''))) (db_state ready_db))
        = map StepRow [[ColInteger 1, ColText ''a''], [ColNull, ColBlob ''b'']]
            @ StepError # [StepRow [ColFloat 0]]"
    by (simp add: sample_engine_def cmd_def GetUniqueStatement_def)
  have nb: "c_record_bindings (cmd READ ''SELECT'') = []" by (simp add: cmd_def)
  note t = Read_collects_rows [OF h, where e = sample_engine and c = "cmd READ ''SELECT''"
             and r = fresh_response
             and st = "bind_all (GetUniqueStatement (c_command (cmd READ ''SELECT'')))
                         (c_bindings (cmd READ ''SELECT''))"
             and rows = "[[ColInteger 1, ColText ''a''], [ColNull, ColBlob ''b'']]"
             and rest = "[StepRow [ColFloat 0]]"]
  from t [where row = "[ColInteger 1, ColText ''a'']"] t [where row = "[ColNull, ColBlob ''b'']"]
       h steps nb
  show ?thesis
    by (auto simp: fresh_response_def)
qed

section \<open>Further facts\<close>

text \<open>
  Every failing loop has a first failing command: the decomposition that the statements
  about failing batches start from always exists.
\<close>

lemma run_commands_first_failure:
  assumes "run_commands e tx cmds r s v = (st, r', s', v')" and "st \<noteq> RESPONSE_OK"
  shows "\<exists>pre c rest r1 s1 v1. cmds = pre @ c # rest
           \<and> run_commands e tx pre r s v = (RESPONSE_OK, r1, s1, v1)
           \<and> dispatch e tx c r1 s1 v1 = (st, r', s', v')"
  using assms
proof (induction cmds arbitrary: r s v)
  case Nil
  then show ?case by simp
next
  case (Cons a cmds)
  obtain st1 ra sa va where d: "dispatch e tx a r s v = (st1, ra, sa, va)"
    by (cases "dispatch e tx a r s v") auto
  show ?case
  proof (cases "st1 = RESPONSE_OK")
    case True
    with Cons.prems(1) d have "run_commands e tx cmds ra sa va = (st, r', s', v')" by simp
    from Cons.IH [OF this Cons.prems(2)] obtain pre c rest r1 s1 v1 where
      ih: "cmds = pre @ c # rest" "run_commands e tx pre ra sa va = (RESPONSE_OK, r1, s1, v1)"
          "dispatch e tx c r1 s1 v1 = (st, r', s', v')"
      by blast
    from ih(1) have "a # cmds = (a # pre) @ c # rest" by simp
    moreover from ih(2) d True
    have "run_commands e tx (a # pre) r s v = (RESPONSE_OK, r1, s1, v1)" by simp
    ultimately show ?thesis using ih(3) by blast
  next
    case False
    with Cons.prems(1) d have "dispatch e tx a r s v = (st, r', s', v')" by auto
    moreover have "a # cmds = [] @ a # cmds" by simp
    moreover have "run_commands e tx [] r s v = (RESPONSE_OK, r, s, v)" by simp
    ultimately show ?thesis by blast
  qed
qed

text \<open>
  When the meta table exists before the connection is initialized, the initializing call
  and the one after it report the same stored version.
\<close>

lemma Initialize_twice_on_existing_table:
  assumes "\<not> initialized s" and "meta (db_current s) = Some (v0, cv0)" and "meta_init_ok e"
    and "Initialize e version compatible_version (Some r) s = (st, ro, s')"
  shows "st = RESPONSE_OK \<and> ro = Some (r\<lparr>result := Some (Result_value (INT_VALUE v0))\<rparr>)
       \<and> Initialize e' version' compatible_version' ro s' = (RESPONSE_OK, ro, s')"
  using assms
  by (auto simp: command_defs DoesTableExist_def GetVersionNumber_def create_meta_if_absent_def
        Let_def split: option.splits)

end
